theory Spec2Isabelle
  imports Main "HOL-Library.AList"
begin

section \<open>CalBridge: request/response correlation over an inbox\<close>

text \<open>
  A shallow embedding of \<^verbatim>\<open>email-receiver.ts\<close> (class ResponseWatcher),
  \<^verbatim>\<open>email-sender.ts\<close> (sendApiEmail) and \<^verbatim>\<open>client.ts\<close> (class
  CalendarEmailClient, the version with executeApiCall and supportedActions).

  Conventions. A JavaScript string is a \<open>string\<close>: the list of the bytes of its UTF-8
  text. A JavaScript number that counts milliseconds is an \<open>int\<close>. A value that may be
  \<^verbatim>\<open>undefined\<close> or \<^verbatim>\<open>null\<close> is an \<open>option\<close>. A \<^verbatim>\<open>throw\<close> (or a
  rejected promise) is the \<open>Inl\<close> of a sum, a normal return the \<open>Inr\<close>. The logger only
  prints and is left out.
\<close>

subsection \<open>Strings\<close>

definition dquote :: char where
  "dquote = CHR 0x22"

definition backslash :: char where
  "backslash = CHR 0x5C"

fun startsWith :: "string \<Rightarrow> string \<Rightarrow> bool" where
  "startsWith s [] = True"
| "startsWith [] (p # ps) = False"
| "startsWith (c # cs) (p # ps) = (c = p \<and> startsWith cs ps)"

text \<open>\<^verbatim>\<open>s.indexOf(pat)\<close>; \<open>None\<close> is the \<^verbatim>\<open>-1\<close> of JavaScript. The third argument
  is the index of the head of the first one in the whole string.\<close>

fun indexOf_from :: "string \<Rightarrow> string \<Rightarrow> nat \<Rightarrow> nat option" where
  "indexOf_from [] pat i = (if pat = [] then Some i else None)"
| "indexOf_from (c # cs) pat i =
     (if startsWith (c # cs) pat then Some i else indexOf_from cs pat (Suc i))"

definition indexOf :: "string \<Rightarrow> string \<Rightarrow> nat option" where
  "indexOf s pat = indexOf_from s pat 0"

text \<open>\<^verbatim>\<open>s.lastIndexOf(pat)\<close>: the scan keeps the last position that matched.\<close>

fun lastIndexOf_from :: "string \<Rightarrow> string \<Rightarrow> nat \<Rightarrow> nat option \<Rightarrow> nat option" where
  "lastIndexOf_from [] pat i found = (if pat = [] then Some i else found)"
| "lastIndexOf_from (c # cs) pat i found =
     lastIndexOf_from cs pat (Suc i) (if startsWith (c # cs) pat then Some i else found)"

definition lastIndexOf :: "string \<Rightarrow> string \<Rightarrow> nat option" where
  "lastIndexOf s pat = lastIndexOf_from s pat 0 None"

text \<open>\<^verbatim>\<open>s.includes(pat)\<close>.\<close>

definition includes_str :: "string \<Rightarrow> string \<Rightarrow> bool" where
  "includes_str s pat = (indexOf s pat \<noteq> None)"

text \<open>\<^verbatim>\<open>s.substring(a, b)\<close> for \<open>a \<le> b\<close>, the only way the code calls it.\<close>

definition substring :: "string \<Rightarrow> nat \<Rightarrow> nat \<Rightarrow> string" where
  "substring s a b = take (b - a) (drop a s)"

text \<open>\<^verbatim>\<open>s.replace(/c/g, r)\<close> for a one-character pattern.\<close>

definition replaceAll :: "char \<Rightarrow> string \<Rightarrow> string \<Rightarrow> string" where
  "replaceAll c r s = concat (map (\<lambda>x. if x = c then r else [x]) s)"

text \<open>The decimal digits of an integer that is not negative.\<close>

function show_digits :: "int \<Rightarrow> string" where
  "show_digits i =
     (if i < 10 then [''0123456789'' ! nat i]
      else show_digits (i div 10) @ [''0123456789'' ! nat (i mod 10)])"
  by pat_completeness auto
termination
  by (relation "measure nat") auto

declare show_digits.simps [simp del]

text \<open>The decimal text of an integer, as a template literal prints it.\<close>

definition show_int :: "int \<Rightarrow> string" where
  "show_int i = (if i < 0 then CHR ''-'' # show_digits (- i) else show_digits i)"

subsection \<open>JSON values and \<^verbatim>\<open>JSON.parse\<close>\<close>

text \<open>
  A JavaScript object is an association list with one entry for each key, in the order
  the keys were first set (JavaScript lists keys that are array indices first; nothing
  here reads the order). A number is kept as the text of its literal, so no floating
  point arithmetic is involved.
\<close>

datatype json =
    JNull
  | JBool bool
  | JNum string
  | JStr string
  | JArr "json list"
  | JObj "(string \<times> json) list"

type_synonym obj = "(string \<times> json) list"

text \<open>\<^verbatim>\<open>o[k] = v\<close> for each entry in turn: a later value replaces an earlier one
  and keeps its place.\<close>

definition assign :: "obj \<Rightarrow> obj \<Rightarrow> obj" where
  "assign target source = foldl (\<lambda>acc (k, v). AList.update k v acc) target source"

definition is_ws :: "char \<Rightarrow> bool" where
  "is_ws c = (c = CHR '' '' \<or> c = CHR 0x09 \<or> c = CHR 0x0A \<or> c = CHR 0x0D)"

definition skip_ws :: "string \<Rightarrow> string" where
  "skip_ws s = dropWhile is_ws s"

definition is_digit :: "char \<Rightarrow> bool" where
  "is_digit c = (48 \<le> (of_char c :: nat) \<and> (of_char c :: nat) \<le> 57)"

definition hex_val :: "char \<Rightarrow> nat option" where
  "hex_val c =
     (let n = (of_char c :: nat) in
      if 48 \<le> n \<and> n \<le> 57 then Some (n - 48)
      else if 65 \<le> n \<and> n \<le> 70 then Some (n - 55)
      else if 97 \<le> n \<and> n \<le> 102 then Some (n - 87)
      else None)"

text \<open>The UTF-8 bytes of a code unit below 0x10000 (a surrogate pair is not joined).\<close>

definition utf8 :: "nat \<Rightarrow> string" where
  "utf8 n =
     (if n < 128 then [char_of n]
      else if n < 2048 then [char_of (192 + n div 64), char_of (128 + n mod 64)]
      else [char_of (224 + n div 4096), char_of (128 + (n div 64) mod 64),
            char_of (128 + n mod 64)])"

definition unescape :: "char \<Rightarrow> char option" where
  "unescape e =
     (if e = dquote then Some dquote
      else if e = backslash then Some backslash
      else if e = CHR ''/'' then Some (CHR ''/'')
      else if e = CHR ''b'' then Some (CHR 0x08)
      else if e = CHR ''f'' then Some (CHR 0x0C)
      else if e = CHR ''n'' then Some (CHR 0x0A)
      else if e = CHR ''r'' then Some (CHR 0x0D)
      else if e = CHR ''t'' then Some (CHR 0x09)
      else None)"

text \<open>The characters of a string literal after its opening quote, up to the closing
  one: the decoded string and the rest of the input.\<close>

fun lex_string :: "string \<Rightarrow> string \<Rightarrow> (string \<times> string) option" where
  "lex_string [] acc = None"
| "lex_string [c] acc = (if c = dquote then Some (acc, []) else None)"
| "lex_string (c # e # cs) acc =
     (if c = dquote then Some (acc, e # cs)
      else if c = backslash then
        (if e = CHR ''u'' then
           (case cs of
              h1 # h2 # h3 # h4 # rest \<Rightarrow>
                (case (hex_val h1, hex_val h2, hex_val h3, hex_val h4) of
                   (Some a, Some b, Some c', Some d) \<Rightarrow>
                     lex_string rest (acc @ utf8 (((a * 16 + b) * 16 + c') * 16 + d))
                 | _ \<Rightarrow> None)
            | _ \<Rightarrow> None)
         else (case unescape e of
                 Some x \<Rightarrow> lex_string cs (acc @ [x])
               | None \<Rightarrow> None))
      else if (of_char c :: nat) < 32 then None
      else lex_string (e # cs) (acc @ [c]))"

text \<open>
  A number literal at the head of the input, part by part: each part gives its text and
  the rest of the input, or \<open>None\<close> where the literal is malformed.
\<close>

definition lex_sign :: "string \<Rightarrow> string \<times> string" where
  "lex_sign s =
     (case s of
        [] \<Rightarrow> ([], s)
      | c # cs \<Rightarrow> if c = CHR ''-'' then ([c], cs) else ([], s))"

definition lex_int :: "string \<Rightarrow> (string \<times> string) option" where
  "lex_int s =
     (case s of
        [] \<Rightarrow> None
      | c # cs \<Rightarrow>
          if c = CHR ''0'' then Some ([c], cs)
          else if is_digit c then Some (c # takeWhile is_digit cs, dropWhile is_digit cs)
          else None)"

definition lex_frac :: "string \<Rightarrow> (string \<times> string) option" where
  "lex_frac s =
     (case s of
        [] \<Rightarrow> Some ([], s)
      | c # cs \<Rightarrow>
          if c = CHR ''.'' then
            (if takeWhile is_digit cs = [] then None
             else Some (c # takeWhile is_digit cs, dropWhile is_digit cs))
          else Some ([], s))"

definition lex_exp :: "string \<Rightarrow> (string \<times> string) option" where
  "lex_exp s =
     (case s of
        [] \<Rightarrow> Some ([], s)
      | c # cs \<Rightarrow>
          if c = CHR ''e'' \<or> c = CHR ''E'' then
            (let (sg, cs1) =
                   (case cs of
                      [] \<Rightarrow> ([], cs)
                    | x # xs \<Rightarrow> if x = CHR ''+'' \<or> x = CHR ''-'' then ([x], xs) else ([], cs))
             in if takeWhile is_digit cs1 = [] then None
                else Some (c # sg @ takeWhile is_digit cs1, dropWhile is_digit cs1))
          else Some ([], s))"

definition lex_number :: "string \<Rightarrow> (string \<times> string) option" where
  "lex_number s =
     (let (sign, s1) = lex_sign s in
      case lex_int s1 of
        None \<Rightarrow> None
      | Some (ip, s2) \<Rightarrow>
          (case lex_frac s2 of
             None \<Rightarrow> None
           | Some (fr, s3) \<Rightarrow>
               (case lex_exp s3 of
                  None \<Rightarrow> None
                | Some (ex, s4) \<Rightarrow> Some (sign @ ip @ fr @ ex, s4))))"

text \<open>
  Recursive descent over the grammar of ECMA-404. The first argument bounds the depth
  of the calls. \<open>JSON_parse\<close> gives \<open>2 * length s + 2\<close>; no larger bound
  changes a result (lemma \<open>JSON_parse_bound\<close> below), so a \<open>None\<close> is a
  syntax error and never the bound.
\<close>

fun parse_value :: "nat \<Rightarrow> string \<Rightarrow> (json \<times> string) option"
  and parse_elements :: "nat \<Rightarrow> string \<Rightarrow> json list \<Rightarrow> (json list \<times> string) option"
  and parse_members :: "nat \<Rightarrow> string \<Rightarrow> obj \<Rightarrow> (obj \<times> string) option"
where
  "parse_value 0 s = None"
| "parse_value (Suc n) s =
     (case skip_ws s of
        [] \<Rightarrow> None
      | c # cs \<Rightarrow>
          if c = CHR ''{'' then
            (case skip_ws cs of
               [] \<Rightarrow> None
             | d # ds \<Rightarrow>
                 if d = CHR ''}'' then Some (JObj [], ds)
                 else (case parse_members n cs [] of
                         Some (kvs, r) \<Rightarrow> Some (JObj (assign [] kvs), r)
                       | None \<Rightarrow> None))
          else if c = CHR ''['' then
            (case skip_ws cs of
               [] \<Rightarrow> None
             | d # ds \<Rightarrow>
                 if d = CHR '']'' then Some (JArr [], ds)
                 else (case parse_elements n cs [] of
                         Some (vs, r) \<Rightarrow> Some (JArr vs, r)
                       | None \<Rightarrow> None))
          else if c = dquote then
            (case lex_string cs [] of
               Some (str, r) \<Rightarrow> Some (JStr str, r)
             | None \<Rightarrow> None)
          else if startsWith (c # cs) ''true'' then Some (JBool True, drop 4 (c # cs))
          else if startsWith (c # cs) ''false'' then Some (JBool False, drop 5 (c # cs))
          else if startsWith (c # cs) ''null'' then Some (JNull, drop 4 (c # cs))
          else (case lex_number (c # cs) of
                  Some (lit, r) \<Rightarrow> Some (JNum lit, r)
                | None \<Rightarrow> None))"
| "parse_elements 0 s acc = None"
| "parse_elements (Suc n) s acc =
     (case parse_value n s of
        None \<Rightarrow> None
      | Some (v, r) \<Rightarrow>
          (case skip_ws r of
             [] \<Rightarrow> None
           | c # cs \<Rightarrow>
               if c = CHR '','' then parse_elements n cs (acc @ [v])
               else if c = CHR '']'' then Some (acc @ [v], cs)
               else None))"
| "parse_members 0 s acc = None"
| "parse_members (Suc n) s acc =
     (case skip_ws s of
        [] \<Rightarrow> None
      | q # cs \<Rightarrow>
          if q \<noteq> dquote then None
          else
            (case lex_string cs [] of
               None \<Rightarrow> None
             | Some (k, r) \<Rightarrow>
                 (case skip_ws r of
                    [] \<Rightarrow> None
                  | c # r1 \<Rightarrow>
                      if c \<noteq> CHR '':'' then None
                      else
                        (case parse_value n r1 of
                           None \<Rightarrow> None
                         | Some (v, r2) \<Rightarrow>
                             (case skip_ws r2 of
                                [] \<Rightarrow> None
                              | d # r3 \<Rightarrow>
                                  if d = CHR '','' then parse_members n r3 (acc @ [(k, v)])
                                  else if d = CHR ''}'' then Some (acc @ [(k, v)], r3)
                                  else None)))))"

subsection \<open>Errors\<close>

text \<open>
  What a \<^verbatim>\<open>throw\<close> carries: a CalendarApiError (message, code, requestId), any other
  instance of Error (its message), or a value that is no Error (its \<^verbatim>\<open>String(...)\<close>).
\<close>

datatype js_error =
    CalendarApiError string string "string option"
  | Error string
  | Thrown string

text \<open>The constant \<^verbatim>\<open>ErrorCodes\<close>.\<close>

definition SEND_FAILED :: string where
  "SEND_FAILED = ''SEND_FAILED''"

definition TIMEOUT :: string where
  "TIMEOUT = ''TIMEOUT''"

definition NOT_CONNECTED :: string where
  "NOT_CONNECTED = ''NOT_CONNECTED''"

definition UNKNOWN :: string where
  "UNKNOWN = ''UNKNOWN''"

text \<open>\<^verbatim>\<open>JSON.parse(text)\<close>; it throws a SyntaxError where the text is no JSON value.\<close>

definition JSON_parse :: "string \<Rightarrow> js_error + json" where
  "JSON_parse s =
     (case parse_value (2 * length s + 2) s of
        None \<Rightarrow> Inl (Error ''SyntaxError'')
      | Some (v, r) \<Rightarrow> if skip_ws r = [] then Inr v else Inl (Error ''SyntaxError''))"

subsection \<open>ResponseWatcher.extractApiResponse\<close>

type_synonym ApiResponse = obj

definition delimiter :: string where
  "delimiter = replicate 40 (CHR ''_'')"

text \<open>
  Lines 224 to 241: cut the body at the delimiter, escape the line breaks, and take the
  text from the first opening brace to the last closing one. \<open>None\<close> is the early
  \<^verbatim>\<open>return null\<close>.
\<close>

definition potentialJson :: "string \<Rightarrow> string option" where
  "potentialJson body0 =
     (let body1 = (case indexOf body0 delimiter of
                     Some delimiterIndex \<Rightarrow> substring body0 0 delimiterIndex
                   | None \<Rightarrow> body0);
          body2 = replaceAll (CHR 0x0A) [backslash, CHR ''n'']
                    (replaceAll (CHR 0x0D) [backslash, CHR ''r''] body1)
      in case (indexOf body2 ''{'', lastIndexOf body2 ''}'') of
           (Some startIndex, Some endIndex) \<Rightarrow>
             if startIndex \<ge> endIndex then None
             else Some (substring body2 startIndex (endIndex + 1))
         | _ \<Rightarrow> None)"

text \<open>
  The own enumerable properties that \<^verbatim>\<open>...parsed\<close> copies, for a value with
  \<^verbatim>\<open>typeof parsed === "object" && parsed !== null\<close> (an object, or an array, whose
  properties are its indices); \<open>None\<close> for any other value.
\<close>

definition own_properties :: "json \<Rightarrow> obj option" where
  "own_properties v =
     (case v of
        JObj kvs \<Rightarrow> Some kvs
      | JArr vs \<Rightarrow> Some (zip (map (\<lambda>k. show_int (int k)) [0 ..< length vs]) vs)
      | _ \<Rightarrow> None)"

definition extractApiResponse :: "string \<Rightarrow> string \<Rightarrow> string \<Rightarrow> js_error + ApiResponse option" where
  "extractApiResponse body requestId messageId =
     (case potentialJson body of
        None \<Rightarrow> Inr None
      | Some text \<Rightarrow>
          (case JSON_parse text of
             Inl err \<Rightarrow> Inr None
           | Inr parsed \<Rightarrow>
               (case own_properties parsed of
                  Some props \<Rightarrow>
                    Inr (Some (assign [(''requestId'', JStr requestId),
                                       (''messageId'', JStr messageId)] props))
                | None \<Rightarrow> Inr None)))"

subsection \<open>The transport and the clock\<close>

text \<open>
  The Gmail API and the clock are the environment. The \<open>world\<close> is the value of
  \<^verbatim>\<open>Date.now()\<close> and the calls made so far, in order; \<open>Timer d\<close> is a
  \<^verbatim>\<open>setTimeout\<close> of \<open>d\<close> milliseconds that has fired. The clock moves only
  while a call or a timer is awaited, by the time the environment says it took.
\<close>

datatype event =
    CallSend string
  | CallList string
  | CallGet string
  | CallModify string
  | CallBatchModify "json list"
  | Timer int

record world =
  clock :: int
  trace :: "event list"

datatype header = Header (h_name: "string option") (h_value: "string option")

datatype mime_part =
  MimePart (mimeType: "string option") (headers: "header list option")
           (body_data: "string option") (parts: "mime_part list option")

record gmail_message =
  msg_id :: "string option"
  msg_threadId :: "string option"
  msg_payload :: "mime_part option"
  msg_internalDate :: "string option"

text \<open>
  What the environment answers, as a function of the world at the call: the time an
  awaited call or timer takes, the result of each Gmail call (\<open>Inl\<close> where the call
  rejects), and the library functions whose result only travels to or from the transport.
  \<open>list_result\<close> gives \<^verbatim>\<open>data.messages\<close>, each entry by its \<^verbatim>\<open>id\<close>.
\<close>

record env =
  elapsed :: "world \<Rightarrow> event \<Rightarrow> int"
  send_result :: "world \<Rightarrow> string \<Rightarrow> js_error + (string option \<times> string option)"
  list_result :: "world \<Rightarrow> string \<Rightarrow> js_error + string option list option"
  get_result :: "world \<Rightarrow> string \<Rightarrow> js_error + gmail_message option"
  modify_result :: "world \<Rightarrow> string \<Rightarrow> js_error + unit"
  authenticate :: "world \<Rightarrow> js_error + unit"
  uuidv4 :: "world \<Rightarrow> string"
  toBase64 :: "string \<Rightarrow> string"
  fromBase64 :: "string \<Rightarrow> string"
  JSON_stringify :: "json \<Rightarrow> string"
  local_date :: "int \<Rightarrow> string"

text \<open>An awaited call: it is recorded and the clock moves by the time it took.\<close>

definition await_call :: "env \<Rightarrow> world \<Rightarrow> event \<Rightarrow> world" where
  "await_call env w e = w\<lparr>clock := clock w + elapsed env w e, trace := trace w @ [e]\<rparr>"

text \<open>A call that is started and not awaited.\<close>

definition issue_call :: "world \<Rightarrow> event \<Rightarrow> world" where
  "issue_call w e = w\<lparr>trace := trace w @ [e]\<rparr>"

subsection \<open>ResponseWatcher\<close>

record ReceivedEmail =
  email_messageId :: string
  email_threadId :: string
  email_from :: string
  email_subject :: string
  email_body :: string
  email_timestamp :: "int option"

record watcher =
  responseSenderEmail :: string
  requestId :: string
  pollIntervalMs :: int
  timeoutMs :: int
  startTime :: int
  processedMessageIds :: "string set"

text \<open>The constructor: \<^verbatim>\<open>startTime = Date.now()\<close> and an empty set of processed ids.\<close>

definition ResponseWatcher :: "world \<Rightarrow> string \<Rightarrow> string \<Rightarrow> int \<Rightarrow> int \<Rightarrow> watcher" where
  "ResponseWatcher w sender rid interval timeout =
     \<lparr>responseSenderEmail = sender, requestId = rid, pollIntervalMs = interval,
      timeoutMs = timeout, startTime = clock w, processedMessageIds = {}\<rparr>"

definition lower_char :: "char \<Rightarrow> char" where
  "lower_char c =
     (if 65 \<le> (of_char c :: nat) \<and> (of_char c :: nat) \<le> 90 then char_of ((of_char c :: nat) + 32)
      else c)"

definition toLowerCase :: "string \<Rightarrow> string" where
  "toLowerCase s = map lower_char s"

text \<open>\<^verbatim>\<open>headers.find((h) => h.name?.toLowerCase() === n)?.value ?? ""\<close>.\<close>

definition header_value :: "header list \<Rightarrow> string \<Rightarrow> string" where
  "header_value hs n =
     (case find (\<lambda>h. map_option toLowerCase (h_name h) = Some n) hs of
        Some h \<Rightarrow> (case h_value h of Some v \<Rightarrow> v | None \<Rightarrow> [])
      | None \<Rightarrow> [])"

text \<open>\<^verbatim>\<open>parseInt(s, 10)\<close>; \<open>None\<close> is NaN.\<close>

definition parseInt :: "string \<Rightarrow> int option" where
  "parseInt s =
     (let s1 = skip_ws s;
          (neg, s2) = (case s1 of
                         c # cs \<Rightarrow> if c = CHR ''-'' then (True, cs)
                                   else if c = CHR ''+'' then (False, cs) else (False, s1)
                       | [] \<Rightarrow> (False, s1));
          ds = takeWhile is_digit s2;
          n = foldl (\<lambda>a c. 10 * a + (int (of_char c) - 48)) 0 ds
      in if ds = [] then None else Some (if neg then - n else n))"

definition has_data :: "mime_part \<Rightarrow> bool" where
  "has_data p = (case body_data p of Some d \<Rightarrow> d \<noteq> [] | None \<Rightarrow> False)"

text \<open>extractBody on a payload that is present; the first argument decodes
  \<^verbatim>\<open>Buffer.from(data, "base64").toString("utf-8")\<close>.\<close>

fun extractBody :: "(string \<Rightarrow> string) \<Rightarrow> mime_part \<Rightarrow> string" where
  "extractBody dec (MimePart mt hs bd ps) =
     (if (case bd of Some d \<Rightarrow> d \<noteq> [] | None \<Rightarrow> False) then dec (the bd)
      else
        (case ps of
           None \<Rightarrow> []
         | Some subparts \<Rightarrow>
             (case find (\<lambda>part. mimeType part = Some ''text/plain'' \<and> has_data part) subparts of
                Some part \<Rightarrow> dec (the (body_data part))
              | None \<Rightarrow>
                  (case find (\<lambda>body. body \<noteq> []) (map (extractBody dec) subparts) of
                     Some body \<Rightarrow> body
                   | None \<Rightarrow> []))))"

text \<open>fetchAndParseMessage: any failure of the get call is caught and gives null.\<close>

definition fetchAndParseMessage :: "env \<Rightarrow> world \<Rightarrow> string \<Rightarrow> ReceivedEmail option \<times> world" where
  "fetchAndParseMessage env w messageId =
     (let w1 = await_call env w (CallGet messageId) in
      case get_result env w messageId of
        Inl error \<Rightarrow> (None, w1)
      | Inr None \<Rightarrow> (None, w1)
      | Inr (Some message) \<Rightarrow>
          (let hs = (case msg_payload message of
                       Some p \<Rightarrow> (case headers p of Some l \<Rightarrow> l | None \<Rightarrow> [])
                     | None \<Rightarrow> [])
           in (Some \<lparr>email_messageId = (case msg_id message of Some i \<Rightarrow> i | None \<Rightarrow> []),
                     email_threadId = (case msg_threadId message of Some t \<Rightarrow> t | None \<Rightarrow> []),
                     email_from = header_value hs ''from'',
                     email_subject = header_value hs ''subject'',
                     email_body = (case msg_payload message of
                                     Some p \<Rightarrow> extractBody (fromBase64 env) p
                                   | None \<Rightarrow> []),
                     email_timestamp =
                       parseInt (case msg_internalDate message of Some d \<Rightarrow> d | None \<Rightarrow> ''0'')\<rparr>,
               w1)))"

text \<open>markAsRead: a failure of the modify call is caught and dropped.\<close>

definition markAsRead :: "env \<Rightarrow> world \<Rightarrow> string \<Rightarrow> world" where
  "markAsRead env w messageId =
     (let w1 = await_call env w (CallModify messageId) in
      case modify_result env w messageId of
        Inl error \<Rightarrow> w1
      | Inr done \<Rightarrow> w1)"

text \<open>The \<^verbatim>\<open>for (const msg of messages)\<close> loop of poll, from line 116.\<close>

fun poll_loop ::
  "env \<Rightarrow> world \<Rightarrow> watcher \<Rightarrow> string option list \<Rightarrow> (js_error + ApiResponse option) \<times> world \<times> watcher"
where
  "poll_loop env w st [] = (Inr None, w, st)"
| "poll_loop env w st (msg # rest) =
     (case msg of
        None \<Rightarrow> poll_loop env w st rest
      | Some mid \<Rightarrow>
          if mid = [] then poll_loop env w st rest
          else if mid \<in> processedMessageIds st then poll_loop env w st rest
          else
            (let st1 = st\<lparr>processedMessageIds := insert mid (processedMessageIds st)\<rparr>;
                 (email, w1) = fetchAndParseMessage env w mid
             in case email of
                  None \<Rightarrow> poll_loop env w1 st1 rest
                | Some e \<Rightarrow>
                    if \<not> includes_str (email_subject e) (requestId st1) then poll_loop env w1 st1 rest
                    else
                      (case extractApiResponse (email_body e) (requestId st1) mid of
                         Inl err \<Rightarrow> (Inl err, w1, st1)
                       | Inr (Some apiResponse) \<Rightarrow>
                           (Inr (Some apiResponse), markAsRead env w1 mid, st1)
                       | Inr None \<Rightarrow> poll_loop env w1 st1 rest)))"

definition poll :: "env \<Rightarrow> world \<Rightarrow> watcher \<Rightarrow> (js_error + ApiResponse option) \<times> world \<times> watcher" where
  "poll env w st =
     (let afterStr = local_date env (startTime st - 60000);
          query = ''from:'' @ responseSenderEmail st @ '' is:unread after:'' @ afterStr;
          w1 = await_call env w (CallList query)
      in case list_result env w query of
           Inl err \<Rightarrow> (Inl err, w1, st)
         | Inr None \<Rightarrow> (Inr None, w1, st)
         | Inr (Some messages) \<Rightarrow>
             if messages = [] then (Inr None, w1, st) else poll_loop env w1 st messages)"

datatype outcome = Resolved ApiResponse | Rejected js_error

text \<open>
  One run of the closure \<^verbatim>\<open>check\<close> of waitForResponse. \<open>Some\<close> settles the promise;
  \<open>None\<close> leaves it pending, with \<^verbatim>\<open>setTimeout(check, pollIntervalMs)\<close> fired.
\<close>

definition check :: "env \<Rightarrow> world \<Rightarrow> watcher \<Rightarrow> outcome option \<times> world \<times> watcher" where
  "check env w st =
     (if clock w - startTime st > timeoutMs st then
        (Some (Rejected (CalendarApiError
                 (''Request timed out after '' @ show_int (timeoutMs st) @ ''ms'')
                 TIMEOUT (Some (requestId st)))), w, st)
      else
        (case poll env w st of
           (Inr (Some response), w1, st1) \<Rightarrow> (Some (Resolved response), w1, st1)
         | (Inr None, w1, st1) \<Rightarrow> (None, await_call env w1 (Timer (pollIntervalMs st1)), st1)
         | (Inl err, w1, st1) \<Rightarrow> (None, await_call env w1 (Timer (pollIntervalMs st1)), st1)))"

text \<open>
  waitForResponse, where \<open>n\<close> bounds how many times \<open>check\<close> runs: the promise with
  the world and the watcher as they are once it is settled, or after \<open>n\<close> runs.
\<close>

fun waitForResponse :: "nat \<Rightarrow> env \<Rightarrow> world \<Rightarrow> watcher \<Rightarrow> outcome option \<times> world \<times> watcher" where
  "waitForResponse 0 env w st = (None, w, st)"
| "waitForResponse (Suc n) env w st =
     (case check env w st of
        (Some result, w1, st1) \<Rightarrow> (Some result, w1, st1)
      | (None, w1, st1) \<Rightarrow> waitForResponse n env w1 st1)"

subsection \<open>sendApiEmail\<close>

datatype ApiMethod = GET | POST | PATCH | DELETE

datatype ApiAction = A_list | A_create | A_update | A_event | A_health

definition method_text :: "ApiMethod \<Rightarrow> string" where
  "method_text m = (case m of GET \<Rightarrow> ''GET'' | POST \<Rightarrow> ''POST'' | PATCH \<Rightarrow> ''PATCH''
                    | DELETE \<Rightarrow> ''DELETE'')"

definition action_text :: "ApiAction \<Rightarrow> string" where
  "action_text a = (case a of A_list \<Rightarrow> ''list'' | A_create \<Rightarrow> ''create''
                    | A_update \<Rightarrow> ''update'' | A_event \<Rightarrow> ''event'' | A_health \<Rightarrow> ''health'')"

record SentEmailMetadata =
  sent_requestId :: string
  sent_messageId :: string
  sent_threadId :: string
  sent_timestamp :: int

definition CRLF :: string where
  "CRLF = [CHR 0x0D, CHR 0x0A]"

definition buildRawEmail :: "string \<Rightarrow> string \<Rightarrow> string \<Rightarrow> string \<Rightarrow> string" where
  "buildRawEmail sender to subject body =
     ''From: '' @ sender @ CRLF @ ''To: '' @ to @ CRLF @ ''Subject: '' @ subject @ CRLF
     @ ''MIME-Version: 1.0'' @ CRLF @ ''Content-Type: text/plain; charset=utf-8'' @ CRLF
     @ [] @ CRLF @ body"

definition encodeBase64Url :: "env \<Rightarrow> string \<Rightarrow> string" where
  "encodeBase64Url env raw =
     rev (dropWhile (\<lambda>c. c = CHR ''='')
       (rev (replaceAll (CHR ''/'') ''_'' (replaceAll (CHR ''+'') ''-'' (toBase64 env raw)))))"

text \<open>\<^verbatim>\<open>(error as Error).message\<close> in a template literal.\<close>

definition message_property :: "js_error \<Rightarrow> string" where
  "message_property e =
     (case e of CalendarApiError m c r \<Rightarrow> m | Error m \<Rightarrow> m | Thrown s \<Rightarrow> ''undefined'')"

definition sendApiEmail ::
  "env \<Rightarrow> world \<Rightarrow> ApiMethod \<Rightarrow> ApiAction \<Rightarrow> json \<Rightarrow> string \<Rightarrow> string
     \<Rightarrow> (js_error + SentEmailMetadata) \<times> world"
where
  "sendApiEmail env w method action payload senderEmail recipientEmail =
     (let rid = uuidv4 env w;
          subject = ''#calendarapi '' @ method_text method @ '' '' @ action_text action
                    @ '' ['' @ rid @ '']'';
          body = JSON_stringify env payload;
          rawEmail = buildRawEmail senderEmail recipientEmail subject body;
          encodedEmail = encodeBase64Url env rawEmail;
          w1 = await_call env w (CallSend encodedEmail)
      in case send_result env w encodedEmail of
           Inr (sid, tid) \<Rightarrow>
             (Inr \<lparr>sent_requestId = rid,
                   sent_messageId = (case sid of Some i \<Rightarrow> i | None \<Rightarrow> []),
                   sent_threadId = (case tid of Some t \<Rightarrow> t | None \<Rightarrow> []),
                   sent_timestamp = clock w1\<rparr>, w1)
         | Inl error \<Rightarrow>
             (Inl (CalendarApiError (''Failed to send email: '' @ message_property error)
                     SEND_FAILED (Some rid)), w1))"

subsection \<open>CalendarEmailClient\<close>

record CalendarClientConfig =
  cfg_senderEmail :: string
  cfg_recipientEmail :: string
  cfg_responseSenderEmail :: string
  cfg_pollIntervalMs :: int
  cfg_requestTimeoutMs :: int

text \<open>The fields of the client; \<open>gmail\<close> is \<open>None\<close> for \<^verbatim>\<open>null\<close>.\<close>

record client =
  config :: CalendarClientConfig
  gmail :: "unit option"
  connected :: bool
  supportedActions :: "ApiAction list"

text \<open>The constructor, on a configuration that resolveConfig has accepted.\<close>

definition CalendarEmailClient :: "CalendarClientConfig \<Rightarrow> client" where
  "CalendarEmailClient cfg =
     \<lparr>config = cfg, gmail = None, connected = False, supportedActions = [A_list]\<rparr>"

definition connect :: "env \<Rightarrow> world \<Rightarrow> client \<Rightarrow> (js_error + unit) \<times> client" where
  "connect env w c =
     (if connected c then (Inr (), c)
      else (case authenticate env w of
              Inl error \<Rightarrow> (Inl error, c)
            | Inr h \<Rightarrow> (Inr (), c\<lparr>gmail := Some h, connected := True\<rparr>)))"

definition disconnect :: "client \<Rightarrow> client" where
  "disconnect c = (if \<not> connected c then c else c\<lparr>connected := False\<rparr>)"

definition ensureConnected :: "client \<Rightarrow> js_error + unit" where
  "ensureConnected c =
     (if \<not> connected c \<or> gmail c = None then
        Inl (CalendarApiError ''Client is not connected. Call connect() first.''
               NOT_CONNECTED None)
      else Inr ())"

text \<open>The truth value of a JSON value in a condition; a number is false when the
  digits of its mantissa are all zero (underflow of a tiny literal to zero is left out).\<close>

definition truthy :: "json \<Rightarrow> bool" where
  "truthy v =
     (case v of
        JNull \<Rightarrow> False
      | JBool b \<Rightarrow> b
      | JNum lit \<Rightarrow>
          (\<exists>c \<in> set (takeWhile (\<lambda>c. c \<noteq> CHR ''e'' \<and> c \<noteq> CHR ''E'') lit).
             is_digit c \<and> c \<noteq> CHR ''0'')
      | JStr s \<Rightarrow> s \<noteq> []
      | JArr vs \<Rightarrow> True
      | JObj kvs \<Rightarrow> True)"

text \<open>cleanupMessages: the batchModify call is started and nobody waits for it; its
  failure is logged only.\<close>

definition cleanupMessages :: "world \<Rightarrow> client \<Rightarrow> json list \<Rightarrow> world" where
  "cleanupMessages w c messageIds =
     (if gmail c = None \<or> messageIds = [] then w else issue_call w (CallBatchModify messageIds))"

definition skipped_response :: ApiResponse where
  "skipped_response =
     [(''status'', JStr ''skipped''),
      (''requestId'', JStr ''no-op''),
      (''data'', JObj [(''message'', JStr
         ''Not implemented in backend yet. This action is currently disabled in the client.'')])]"

text \<open>
  sendRequest. \<open>n\<close> bounds the runs of \<open>check\<close> in waitForResponse; the result is
  \<open>None\<close> while that promise is pending. The \<^verbatim>\<open>catch\<close> logs and throws again.
\<close>

definition sendRequest ::
  "nat \<Rightarrow> env \<Rightarrow> world \<Rightarrow> client \<Rightarrow> ApiMethod \<Rightarrow> ApiAction \<Rightarrow> json
     \<Rightarrow> ((js_error + ApiResponse) \<times> world) option"
where
  "sendRequest n env w c method action payload =
     (if action \<notin> set (supportedActions c) then Some (Inr skipped_response, w)
      else
        (case ensureConnected c of
           Inl error \<Rightarrow> Some (Inl error, w)
         | Inr u \<Rightarrow>
             (case sendApiEmail env w method action payload
                     (cfg_senderEmail (config c)) (cfg_recipientEmail (config c)) of
                (Inl error, w1) \<Rightarrow> Some (Inl error, w1)
              | (Inr sentMeta, w1) \<Rightarrow>
                  (let watcher = ResponseWatcher w1 (cfg_responseSenderEmail (config c))
                                   (sent_requestId sentMeta) (cfg_pollIntervalMs (config c))
                                   (cfg_requestTimeoutMs (config c))
                   in case waitForResponse n env w1 watcher of
                        (None, w2, st2) \<Rightarrow> None
                      | (Some (Rejected error), w2, st2) \<Rightarrow> Some (Inl error, w2)
                      | (Some (Resolved response), w2, st2) \<Rightarrow>
                          (let messagesToDelete =
                                 [JStr (sent_messageId sentMeta)] @
                                 (case map_of response ''messageId'' of
                                    Some m \<Rightarrow> if truthy m then [m] else []
                                  | None \<Rightarrow> [])
                           in Some (Inr response, cleanupMessages w2 c messagesToDelete))))))"

definition paramsErrorMessage :: "js_error \<Rightarrow> string \<Rightarrow> ApiResponse" where
  "paramsErrorMessage error context =
     (let message = (case error of CalendarApiError m c r \<Rightarrow> m | Error m \<Rightarrow> m | Thrown s \<Rightarrow> s);
          code = (case error of CalendarApiError m c r \<Rightarrow> c | _ \<Rightarrow> UNKNOWN)
      in [(''status'', JStr ''error''),
          (''requestId'', JStr []),
          (''error'', JStr message),
          (''data'', JObj [(''code'', JStr code)])])"

text \<open>\<^verbatim>\<open>response.durationMs = Date.now() - start\<close>.\<close>

definition set_durationMs :: "int \<Rightarrow> ApiResponse \<Rightarrow> ApiResponse" where
  "set_durationMs d response = AList.update ''durationMs'' (JNum (show_int d)) response"

text \<open>executeApiCall: the operation runs from the world at the call; whatever it throws
  is caught and turned into a response.\<close>

definition executeApiCall ::
  "world \<Rightarrow> string \<Rightarrow> (world \<Rightarrow> ((js_error + ApiResponse) \<times> world) option)
     \<Rightarrow> ((js_error + ApiResponse) \<times> world) option"
where
  "executeApiCall w context operation =
     (let start = clock w in
      case operation w of
        None \<Rightarrow> None
      | Some (Inr response, w1) \<Rightarrow> Some (Inr (set_durationMs (clock w1 - start) response), w1)
      | Some (Inl error, w1) \<Rightarrow>
          Some (Inr (set_durationMs (clock w1 - start) (paramsErrorMessage error context)), w1))"

definition listEvents ::
  "nat \<Rightarrow> env \<Rightarrow> world \<Rightarrow> client \<Rightarrow> string \<Rightarrow> string \<Rightarrow> ((js_error + ApiResponse) \<times> world) option"
where
  "listEvents n env w c start end' =
     executeApiCall w ''listEvents''
       (\<lambda>w. sendRequest n env w c GET A_list (JObj [(''start'', JStr start), (''end'', JStr end')]))"

definition createEvent ::
  "nat \<Rightarrow> env \<Rightarrow> world \<Rightarrow> client \<Rightarrow> obj \<Rightarrow> ((js_error + ApiResponse) \<times> world) option"
where
  "createEvent n env w c eventData =
     executeApiCall w ''createEvent'' (\<lambda>w. sendRequest n env w c POST A_create (JObj eventData))"

definition updateEvent ::
  "nat \<Rightarrow> env \<Rightarrow> world \<Rightarrow> client \<Rightarrow> obj \<Rightarrow> ((js_error + ApiResponse) \<times> world) option"
where
  "updateEvent n env w c eventData =
     executeApiCall w ''updateEvent'' (\<lambda>w. sendRequest n env w c PATCH A_update (JObj eventData))"

definition deleteEvent ::
  "nat \<Rightarrow> env \<Rightarrow> world \<Rightarrow> client \<Rightarrow> string \<Rightarrow> ((js_error + ApiResponse) \<times> world) option"
where
  "deleteEvent n env w c eventId =
     executeApiCall w ''deleteEvent''
       (\<lambda>w. sendRequest n env w c DELETE A_event (JObj [(''id'', JStr eventId)]))"

definition healthCheck ::
  "nat \<Rightarrow> env \<Rightarrow> world \<Rightarrow> client \<Rightarrow> ((js_error + ApiResponse) \<times> world) option"
where
  "healthCheck n env w c =
     executeApiCall w ''healthCheck'' (\<lambda>w. sendRequest n env w c GET A_health (JObj []))"

text \<open>The five public operations with their arguments, and the action each one sends.\<close>

datatype public_call =
    ListEvents string string
  | CreateEvent obj
  | UpdateEvent obj
  | DeleteEvent string
  | HealthCheck

definition call_action :: "public_call \<Rightarrow> ApiAction" where
  "call_action pc =
     (case pc of ListEvents s e \<Rightarrow> A_list | CreateEvent d \<Rightarrow> A_create | UpdateEvent d \<Rightarrow> A_update
      | DeleteEvent i \<Rightarrow> A_event | HealthCheck \<Rightarrow> A_health)"

definition run_call ::
  "nat \<Rightarrow> env \<Rightarrow> world \<Rightarrow> client \<Rightarrow> public_call \<Rightarrow> ((js_error + ApiResponse) \<times> world) option"
where
  "run_call n env w c pc =
     (case pc of
        ListEvents s e \<Rightarrow> listEvents n env w c s e
      | CreateEvent d \<Rightarrow> createEvent n env w c d
      | UpdateEvent d \<Rightarrow> updateEvent n env w c d
      | DeleteEvent i \<Rightarrow> deleteEvent n env w c i
      | HealthCheck \<Rightarrow> healthCheck n env w c)"

subsection \<open>Notions used to state the properties\<close>

text \<open>The ids of the messages fetched (\<^verbatim>\<open>users.messages.get\<close>) in a run of calls.\<close>

fun fetched :: "event list \<Rightarrow> string list" where
  "fetched [] = []"
| "fetched (CallGet i # es) = i # fetched es"
| "fetched (CallSend r # es) = fetched es"
| "fetched (CallList q # es) = fetched es"
| "fetched (CallModify i # es) = fetched es"
| "fetched (CallBatchModify l # es) = fetched es"
| "fetched (Timer d # es) = fetched es"


text \<open>The error that waitForResponse rejects with at the deadline.\<close>

definition timeout_error :: "watcher \<Rightarrow> js_error" where
  "timeout_error st =
     CalendarApiError (''Request timed out after '' @ show_int (timeoutMs st) @ ''ms'')
       TIMEOUT (Some (requestId st))"

subsection \<open>A sample environment\<close>

text \<open>
  An inbox where every list call answers \<open>listing\<close>, and every message fetched has the
  given subject and body text. Sending succeeds, minted request ids are \<open>rid\<close>, a timer
  of \<open>d\<close> milliseconds takes \<open>max 1 d\<close> and transport calls take no time.
\<close>

definition sample_message :: "string \<Rightarrow> string \<Rightarrow> string \<Rightarrow> gmail_message" where
  "sample_message i subject body =
     \<lparr>msg_id = Some i, msg_threadId = Some ''t1'',
      msg_payload = Some (MimePart (Some ''text/plain'')
                            (Some [Header (Some ''From'') (Some ''backend@example.org''),
                                   Header (Some ''Subject'') (Some subject)])
                            (Some body) None),
      msg_internalDate = Some ''0''\<rparr>"

definition sample_env ::
  "(js_error + string option list option) \<Rightarrow> string \<Rightarrow> string \<Rightarrow> string \<Rightarrow> env"
where
  "sample_env listing rid subject body =
     \<lparr>elapsed = (\<lambda>w e. case e of Timer d \<Rightarrow> max 1 d | _ \<Rightarrow> 0),
      send_result = (\<lambda>w raw. Inr (Some ''s1'', Some ''t1'')),
      list_result = (\<lambda>w q. listing),
      get_result = (\<lambda>w i. Inr (Some (sample_message i subject body))),
      modify_result = (\<lambda>w i. Inr ()),
      authenticate = (\<lambda>w. Inr ()),
      uuidv4 = (\<lambda>w. rid),
      toBase64 = (\<lambda>s. s),
      fromBase64 = (\<lambda>s. s),
      JSON_stringify = (\<lambda>v. ''{}''),
      local_date = (\<lambda>t. ''2026/1/1'')\<rparr>"

definition world0 :: world where
  "world0 = \<lparr>clock = 1000, trace = []\<rparr>"

definition sample_config :: CalendarClientConfig where
  "sample_config =
     \<lparr>cfg_senderEmail = ''me@example.org'', cfg_recipientEmail = ''backend@example.org'',
      cfg_responseSenderEmail = ''backend@example.org'',
      cfg_pollIntervalMs = 3000, cfg_requestTimeoutMs = 5000\<rparr>"

definition payload_a1 :: string where
  "payload_a1 = ''{'' @ [dquote] @ ''a'' @ [dquote] @ '':1}''"

definition payload_rid :: string where
  "payload_rid = ''{'' @ [dquote] @ ''requestId'' @ [dquote] @ '':'' @ [dquote] @ ''zz''
                 @ [dquote] @ ''}''"

section \<open>The bound of the parser\<close>

text \<open>Each parser returns a rest that is no longer than its input.\<close>

lemma skip_ws_length: "skip_ws s = c # cs \<Longrightarrow> length cs < length s"
  unfolding skip_ws_def
  by (metis length_dropWhile_le length_Cons less_Suc_eq_le not_less_eq_eq not_less)

lemma lex_string_length: "lex_string cs acc = Some (str, r) \<Longrightarrow> length r \<le> length cs"
  by (induction cs acc rule: lex_string.induct)
     (auto split: if_splits list.splits option.splits, fastforce+)

lemma dropWhile_length_le: "length (dropWhile P xs) \<le> Suc (length xs)"
  by (simp add: le_SucI length_dropWhile_le)

lemma lex_number_length: "lex_number s = Some (lit, r) \<Longrightarrow> length r \<le> length s"
proof -
  assume a: "lex_number s = Some (lit, r)"
  obtain sign s1 where 1: "lex_sign s = (sign, s1)" by (cases "lex_sign s")
  then have l1: "length s1 \<le> length s"
    by (auto simp: lex_sign_def split: list.splits if_splits)
  from a 1 obtain ip s2 where 2: "lex_int s1 = Some (ip, s2)"
    by (auto simp: lex_number_def split: option.splits)
  then have l2: "length s2 \<le> length s1"
    by (auto simp: lex_int_def dropWhile_length_le split: list.splits if_splits)
  from a 1 2 obtain fr s3 where 3: "lex_frac s2 = Some (fr, s3)"
    by (auto simp: lex_number_def split: option.splits)
  then have l3: "length s3 \<le> length s2"
    by (auto simp: lex_frac_def dropWhile_length_le split: list.splits if_splits)
  from a 1 2 3 obtain ex where 4: "lex_exp s3 = Some (ex, r)"
    by (auto simp: lex_number_def split: option.splits)
  have "length r \<le> length s3"
  proof (cases s3)
    case Nil
    with 4 show ?thesis by (simp add: lex_exp_def)
  next
    case (Cons c cs)
    show ?thesis
    proof (cases "c = CHR ''e'' \<or> c = CHR ''E''")
      case False
      with 4 Cons show ?thesis by (auto simp: lex_exp_def)
    next
      case True
      obtain sg cs1 where sg: "(case cs of [] \<Rightarrow> ([], cs)
          | x # xs \<Rightarrow> if x = CHR ''+'' \<or> x = CHR ''-'' then ([x], xs) else ([], cs)) = (sg, cs1)"
        by (cases "(case cs of [] \<Rightarrow> ([]::string, cs)
          | x # xs \<Rightarrow> if x = CHR ''+'' \<or> x = CHR ''-'' then ([x], xs) else ([], cs))")
      then have "length cs1 \<le> length cs" by (auto split: list.splits if_splits)
      moreover from 4 Cons True sg have "r = dropWhile is_digit cs1"
        by (auto simp: lex_exp_def Let_def split: if_splits)
      ultimately show ?thesis using Cons length_dropWhile_le [of is_digit cs1] by simp
    qed
  qed
  with l1 l2 l3 show ?thesis by simp
qed

lemma parse_length:
  "(parse_value n s = Some (v, r) \<longrightarrow> length r \<le> length s)"
  "(parse_elements n s vs = Some (vs', r) \<longrightarrow> length r \<le> length s)"
  "(parse_members n s kvs = Some (kvs', r) \<longrightarrow> length r \<le> length s)"
proof (induction n s and n s vs and n s kvs arbitrary: v r and vs' r and kvs' r
         rule: parse_value_parse_elements_parse_members.induct)
  case (1 s)
  then show ?case by simp
next
  case (2 n s)
  show ?case
  proof
    assume a: "parse_value (Suc n) s = Some (v, r)"
    then obtain c cs where sk: "skip_ws s = c # cs" by (cases "skip_ws s") auto
    note l = skip_ws_length [OF sk]
    consider (obj) "c = CHR ''{''" | (arr) "c \<noteq> CHR ''{''" "c = CHR ''[''"
      | (other) "c \<noteq> CHR ''{''" "c \<noteq> CHR ''[''" by blast
    then show "length r \<le> length s"
    proof cases
      case obj
      from a sk obj obtain d ds where sk2: "skip_ws cs = d # ds" by (cases "skip_ws cs") auto
      show ?thesis
      proof (cases "d = CHR ''}''")
        case True
        with a sk obj sk2 skip_ws_length [OF sk2] l show ?thesis by auto
      next
        case False
        with a sk obj sk2 obtain kvs where "parse_members n cs [] = Some (kvs, r)"
          by (auto split: option.splits)
        with "2.IH"(1) [OF sk obj sk2 False, of kvs r] l show ?thesis by simp
      qed
    next
      case arr
      from a sk arr obtain d ds where sk2: "skip_ws cs = d # ds" by (cases "skip_ws cs") auto
      show ?thesis
      proof (cases "d = CHR '']''")
        case True
        with a sk arr sk2 skip_ws_length [OF sk2] l show ?thesis by auto
      next
        case False
        with a sk arr sk2 obtain vs where "parse_elements n cs [] = Some (vs, r)"
          by (auto split: option.splits)
        with "2.IH"(2) [OF sk arr sk2 False, of vs r] l show ?thesis by simp
      qed
    next
      case other
      with a sk have "(\<exists>str. lex_string cs [] = Some (str, r)) \<or> r = drop 4 (c # cs)
          \<or> r = drop 5 (c # cs) \<or> (\<exists>lit. lex_number (c # cs) = Some (lit, r))"
        by (auto split: if_splits option.splits)
      with l show ?thesis
        by (auto dest!: lex_string_length lex_number_length)
    qed
  qed
next
  case (3 s acc)
  then show ?case by simp
next
  case (4 n s acc)
  show ?case
  proof
    assume a: "parse_elements (Suc n) s acc = Some (vs', r)"
    then obtain v r1 where pv: "parse_value n s = Some (v, r1)"
      by (auto split: option.splits)
    with "4.IH"(1) [of v r1] have l1: "length r1 \<le> length s" by simp
    from a pv obtain c cs where sk: "skip_ws r1 = c # cs" by (cases "skip_ws r1") auto
    note l2 = skip_ws_length [OF sk]
    show "length r \<le> length s"
    proof (cases "c = CHR '',''")
      case True
      with a pv sk have "parse_elements n cs (acc @ [v]) = Some (vs', r)" by simp
      with "4.IH"(2) [OF pv refl sk True, of vs' r] l1 l2 show ?thesis by simp
    next
      case False
      with a pv sk l1 l2 show ?thesis by (auto split: if_splits)
    qed
  qed
next
  case (5 s acc)
  then show ?case by simp
next
  case (6 n s acc)
  show ?case
  proof
    assume a: "parse_members (Suc n) s acc = Some (kvs', r)"
    then obtain q cs where sk: "skip_ws s = q # cs" by (cases "skip_ws s") auto
    with a have q: "\<not> q \<noteq> dquote" by (auto split: if_splits)
    from a sk q obtain k r0 where ls: "lex_string cs [] = Some (k, r0)"
      by (auto split: option.splits)
    from a sk q ls obtain c r1 where sk1: "skip_ws r0 = c # r1" by (cases "skip_ws r0") auto
    with a sk q ls have c: "\<not> c \<noteq> CHR '':''" by (auto split: if_splits)
    from a sk q ls sk1 c obtain v r2 where pv: "parse_value n r1 = Some (v, r2)"
      by (auto split: option.splits)
    from a sk q ls sk1 c pv obtain d r3 where sk2: "skip_ws r2 = d # r3"
      by (cases "skip_ws r2") auto
    from "6.IH"(1) [OF sk q ls refl sk1 c, of v r2] pv have l3: "length r2 \<le> length r1" by simp
    note ls' = skip_ws_length [OF sk] lex_string_length [OF ls] skip_ws_length [OF sk1]
      skip_ws_length [OF sk2]
    show "length r \<le> length s"
    proof (cases "d = CHR '',''")
      case True
      with a sk q ls sk1 c pv sk2 have "parse_members n r3 (acc @ [(k, v)]) = Some (kvs', r)"
        by simp
      with "6.IH"(2) [OF sk q ls refl sk1 c pv refl sk2 True, of kvs' r] l3 ls' show ?thesis by simp
    next
      case False
      with a sk q ls sk1 c pv sk2 l3 ls' show ?thesis by (auto split: if_splits)
    qed
  qed
qed

text \<open>From the bound that \<open>JSON_parse\<close> gives, one more level changes nothing.\<close>

lemma parse_fuel_step:
  "(\<forall>s. 2 * length s + 1 \<le> n \<longrightarrow> parse_value (Suc n) s = parse_value n s) \<and>
   (\<forall>s vs. 2 * length s + 2 \<le> n \<longrightarrow> parse_elements (Suc n) s vs = parse_elements n s vs) \<and>
   (\<forall>s kvs. 2 * length s + 2 \<le> n \<longrightarrow> parse_members (Suc n) s kvs = parse_members n s kvs)"
proof (induction n)
  case 0
  show ?case by simp
next
  case (Suc n)
  note parse_value.simps [simp del] parse_elements.simps [simp del] parse_members.simps [simp del]
  note pv2 = parse_value.simps(2) and pe2 = parse_elements.simps(2) and pm2 = parse_members.simps(2)
  from Suc have IHv: "\<And>s. 2 * length s + 1 \<le> n \<Longrightarrow> parse_value (Suc n) s = parse_value n s"
    and IHe: "\<And>s vs. 2 * length s + 2 \<le> n \<Longrightarrow> parse_elements (Suc n) s vs = parse_elements n s vs"
    and IHm: "\<And>s kvs. 2 * length s + 2 \<le> n \<Longrightarrow> parse_members (Suc n) s kvs = parse_members n s kvs"
    by blast+
  have v: "parse_value (Suc (Suc n)) s = parse_value (Suc n) s" if b: "2 * length s + 1 \<le> Suc n" for s
  proof (cases "skip_ws s")
    case Nil
    then show ?thesis by (simp add: pv2)
  next
    case (Cons c cs)
    from skip_ws_length [OF Cons] b have "2 * length cs + 2 \<le> n" by simp
    from IHe [OF this] IHm [OF this] Cons show ?thesis
      by (simp add: pv2 [of "Suc n"] pv2 [of n] split: list.splits)
  qed
  have e: "parse_elements (Suc (Suc n)) s vs = parse_elements (Suc n) s vs"
    if b: "2 * length s + 2 \<le> Suc n" for s vs
  proof -
    from b have "2 * length s + 1 \<le> n" by simp
    note pv = IHv [OF this]
    show ?thesis
    proof (cases "parse_value n s")
      case None
      with pv show ?thesis by (simp add: pe2 [of "Suc n"] pe2 [of n] split: list.splits)
    next
      case (Some a)
      obtain x r1 where a: "a = (x, r1)" by (cases a)
      from parse_length(1) [of n s x r1] Some a have l1: "length r1 \<le> length s" by simp
      show ?thesis
      proof (cases "skip_ws r1")
        case Nil
        with pv Some a show ?thesis by (simp add: pe2 [of "Suc n"] pe2 [of n] split: list.splits)
      next
        case (Cons c cs)
        from skip_ws_length [OF Cons] l1 b have "2 * length cs + 2 \<le> n" by simp
        from IHe [OF this] pv Some a Cons show ?thesis
          by (simp add: pe2 [of "Suc n"] pe2 [of n] split: list.splits)
      qed
    qed
  qed
  have m: "parse_members (Suc (Suc n)) s kvs = parse_members (Suc n) s kvs"
    if b: "2 * length s + 2 \<le> Suc n" for s kvs
  proof (cases "skip_ws s")
    case Nil
    then show ?thesis by (simp add: pm2)
  next
    case (Cons q cs)
    note l0 = skip_ws_length [OF Cons]
    show ?thesis
    proof (cases "lex_string cs []")
      case None
      with Cons show ?thesis 
              by (simp add: pm2 [of "Suc n"] pm2 [of n] split: list.splits)
    next
      case (Some a)
      obtain k r0 where a: "a = (k, r0)" by (cases a)
      from lex_string_length [of cs "[]" k r0] Some a have l1: "length r0 \<le> length cs" by simp
      show ?thesis
      proof (cases "skip_ws r0")
        case Nil
        with Cons Some a show ?thesis 
              by (simp add: pm2 [of "Suc n"] pm2 [of n] split: list.splits)
      next
        case c: (Cons c r1)
        note l2 = skip_ws_length [OF c]
        from l0 l1 l2 b have "2 * length r1 + 1 \<le> n" by simp
        note pv = IHv [OF this]
        show ?thesis
        proof (cases "parse_value n r1")
          case None
          with pv Cons Some a c show ?thesis 
              by (simp add: pm2 [of "Suc n"] pm2 [of n] split: list.splits)
        next
          case v: (Some a2)
          obtain x r2 where a2: "a2 = (x, r2)" by (cases a2)
          from parse_length(1) [of n r1 x r2] v a2 have l3: "length r2 \<le> length r1" by simp
          show ?thesis
          proof (cases "skip_ws r2")
            case Nil
            with pv Cons Some a c v a2 show ?thesis 
              by (simp add: pm2 [of "Suc n"] pm2 [of n] split: list.splits)
          next
            case d: (Cons d r3)
            from skip_ws_length [OF d] l0 l1 l2 l3 b have "2 * length r3 + 2 \<le> n" by simp
            from IHm [OF this] pv Cons Some a c v a2 d show ?thesis 
              by (simp add: pm2 [of "Suc n"] pm2 [of n] split: list.splits)
          qed
        qed
      qed
    qed
  qed
  from v e m show ?case by blast
qed

text \<open>The bound that \<open>JSON_parse\<close> gives is never the reason for a failure: any
  larger bound gives the same result.\<close>

lemma parse_value_fuel:
  "2 * length s + 1 \<le> n \<Longrightarrow> parse_value (n + k) s = parse_value n s"
proof (induction k)
  case 0
  show ?case by simp
next
  case (Suc k)
  from Suc.prems have "2 * length s + 1 \<le> n + k" by simp
  with parse_fuel_step [of "n + k"] have "parse_value (Suc (n + k)) s = parse_value (n + k) s"
    by blast
  with Suc show ?case by simp
qed

lemma JSON_parse_bound:
  assumes "2 * length s + 2 \<le> n"
  shows "parse_value n s = parse_value (2 * length s + 2) s"
proof -
  from assms obtain k where "n = 2 * length s + 2 + k"
    using le_Suc_ex by blast
  with parse_value_fuel [of s "2 * length s + 2" k] show ?thesis
    by (simp del: parse_value.simps)
qed

section \<open>Properties of extractApiResponse\<close>

lemma startsWith_append: "startsWith (p @ s) p"
  by (induction p) auto

lemma indexOf_from_prefix: "indexOf_from (p @ s) p i = Some i"
  by (cases "p @ s") (use startsWith_append [of p s] in auto)

lemma startsWith_delimiter_head: "c \<noteq> CHR ''_'' \<Longrightarrow> startsWith (c # cs) delimiter = False"
  by (simp add: delimiter_def eval_nat_numeral)

lemma indexOf_payload_a1: "indexOf (payload_a1 @ delimiter @ h) delimiter = Some 7"
  by (simp add: indexOf_def payload_a1_def dquote_def startsWith_delimiter_head
        indexOf_from_prefix)

lemma JSON_parse_payload_a1: "JSON_parse payload_a1 = Inr (JObj [(''a'', JNum ''1'')])"
  by code_simp

lemma substring_payload_a1: "substring (payload_a1 @ s) 0 7 = payload_a1"
  by (simp add: substring_def payload_a1_def)

lemma braces_of_payload_a1:
  "(let body2 = replaceAll (CHR 0x0A) [backslash, CHR ''n'']
                  (replaceAll (CHR 0x0D) [backslash, CHR ''r''] payload_a1)
    in case (indexOf body2 ''{'', lastIndexOf body2 ''}'') of
         (Some startIndex, Some endIndex) \<Rightarrow>
           if startIndex \<ge> endIndex then None
           else Some (substring body2 startIndex (endIndex + 1))
       | _ \<Rightarrow> None) = Some payload_a1"
  by code_simp

lemma potentialJson_payload_a1: "potentialJson (payload_a1 @ delimiter @ h) = Some payload_a1"
  unfolding potentialJson_def indexOf_payload_a1
  using braces_of_payload_a1 by (simp add: substring_payload_a1)

text \<open>
  Claim C4. The body is the text \<^verbatim>\<open>{"a":1}\<close>, then the delimiter of forty
  underscores, then any quoted history (one that holds \<^verbatim>\<open>{"b":2}\<close> among them).
  extractApiResponse cuts the body at the delimiter before it looks for braces, and
  returns the payload \<^verbatim>\<open>{"a":1}\<close> under the two ids: nothing of the history is in
  the result.
\<close>

theorem extractApiResponse_truncates_at_delimiter:
  "extractApiResponse (payload_a1 @ delimiter @ history) rid mid =
     Inr (Some [(''requestId'', JStr rid), (''messageId'', JStr mid), (''a'', JNum ''1'')])"
  by (simp add: extractApiResponse_def potentialJson_payload_a1 JSON_parse_payload_a1
        own_properties_def assign_def)

text \<open>
  Claim C5. Decoding fails closed: for every body, extractApiResponse returns (a response
  or null) and never throws; and where \<^verbatim>\<open>JSON.parse\<close> throws on the text between
  the braces, the result is null.
\<close>

theorem extractApiResponse_fails_closed:
  "(\<exists>r. extractApiResponse body rid mid = Inr r) \<and>
   (\<forall>t e. potentialJson body = Some t \<longrightarrow> JSON_parse t = Inl e \<longrightarrow>
      extractApiResponse body rid mid = Inr None)"
  by (auto simp: extractApiResponse_def split: option.splits sum.splits)

theorem extractApiResponse_fails_closed_witness:
  "potentialJson ''{x}'' = Some ''{x}'' \<and> JSON_parse ''{x}'' = Inl (Error ''SyntaxError'') \<and>
   extractApiResponse ''{x}'' ''r'' ''m'' = Inr None"
proof -
  have p: "potentialJson ''{x}'' = Some ''{x}''" by code_simp
  have j: "JSON_parse ''{x}'' = Inl (Error ''SyntaxError'')" by code_simp
  from extractApiResponse_fails_closed [of "''{x}''" "''r''" "''m''"] p j
  show ?thesis by blast
qed

lemma indexOf_from_char:
  "indexOf_from s [c] i = Some j \<Longrightarrow> i \<le> j \<and> j - i < length s \<and> s ! (j - i) = c"
proof (induction s arbitrary: i)
  case Nil
  then show ?case by simp
next
  case (Cons x xs)
  show ?case
  proof (cases "x = c")
    case True
    with Cons.prems show ?thesis by simp
  next
    case False
    with Cons.prems have "indexOf_from xs [c] (Suc i) = Some j" by simp
    from Cons.IH [OF this] show ?thesis
      by (auto simp: nth_Cons' Suc_diff_le)
  qed
qed

text \<open>The text handed to \<^verbatim>\<open>JSON.parse\<close> starts with an opening brace.\<close>

lemma potentialJson_brace:
  assumes "potentialJson body = Some t"
  shows "\<exists>t'. t = CHR ''{'' # t'"
proof -
  define b where "b = replaceAll (CHR 0x0A) [backslash, CHR ''n'']
      (replaceAll (CHR 0x0D) [backslash, CHR ''r'']
        (case indexOf body delimiter of Some i \<Rightarrow> substring body 0 i | None \<Rightarrow> body))"
  from assms have c: "(case (indexOf b ''{'', lastIndexOf b ''}'') of
           (Some s, Some e) \<Rightarrow> if s \<ge> e then None else Some (substring b s (e + 1))
         | _ \<Rightarrow> None) = Some t"
    unfolding potentialJson_def Let_def b_def .
  have "\<exists>s e. indexOf b ''{'' = Some s \<and> s < e \<and> t = substring b s (e + 1)"
  proof (cases "indexOf b ''{''")
    case None
    with c show ?thesis by simp
  next
    case (Some s)
    note s = this
    show ?thesis
    proof (cases "lastIndexOf b ''}''")
      case None
      with s c show ?thesis by simp
    next
      case (Some e)
      with s c have "s < e" "t = substring b s (e + 1)"
        by (auto split: if_splits)
      with s show ?thesis by blast
    qed
  qed
  then obtain s e where
    s: "indexOf b ''{'' = Some s" and lt: "s < e" and t: "t = substring b s (e + 1)"
    by blast
  from indexOf_from_char [OF s [unfolded indexOf_def]]
  have "s < length b" "b ! s = CHR ''{''" by auto
  then have "drop s b = CHR ''{'' # drop (Suc s) b"
    using Cons_nth_drop_Suc [of s b] by simp
  with lt t show ?thesis
    by (cases "e + 1 - s") (auto simp: substring_def)
qed

lemma distinct_assign:
  "distinct (map fst target) \<Longrightarrow> distinct (map fst (assign target source))"
  unfolding assign_def
  by (induction source arbitrary: target) (auto simp: distinct_update)

lemma map_of_assign:
  "map_of (assign target source) k =
     (case map_of (rev source) k of Some v \<Rightarrow> Some v | None \<Rightarrow> map_of target k)"
  unfolding assign_def
  by (induction source arbitrary: target)
     (auto simp: update_conv' map_add_def split: option.splits)

lemma map_of_rev_distinct:
  "distinct (map fst xs) \<Longrightarrow> map_of (rev xs) = map_of xs"
  by (metis distinct_rev map_of_inject_set rev_map set_rev)

lemma parse_value_brace:
  assumes "parse_value n (CHR ''{'' # t') = Some (v, r)"
  shows "\<exists>kvs. v = JObj kvs \<and> distinct (map fst kvs)"
proof (cases n)
  case 0
  with assms show ?thesis by simp
next
  case (Suc m)
  have "skip_ws (CHR ''{'' # t') = CHR ''{'' # t'"
    by (simp add: skip_ws_def is_ws_def)
  with assms Suc show ?thesis
    by (auto simp: distinct_assign split: list.splits if_splits option.splits)
qed

text \<open>So what \<^verbatim>\<open>JSON.parse\<close> returns there is an object (never an array or a
  primitive), with one entry for each key.\<close>

lemma parsed_payload_is_object:
  assumes "potentialJson body = Some t" and "JSON_parse t = Inr parsed"
  shows "\<exists>kvs. parsed = JObj kvs \<and> distinct (map fst kvs)"
proof -
  from potentialJson_brace [OF assms(1)] obtain t' where t: "t = CHR ''{'' # t'" by blast
  from assms(2) obtain r where "parse_value (2 * length t + 2) t = Some (parsed, r)"
    by (auto simp: JSON_parse_def split: option.splits if_splits)
  with t parse_value_brace show ?thesis by blast
qed

text \<open>
  Claim C10. The response on a match is \<^verbatim>\<open>{ requestId, messageId, ...parsed }\<close>:
  whenever the body decodes to a payload, the response is returned, and its requestId
  (its messageId) is the payload's own value for that key where the payload has the key,
  and the awaited request id (the id of the matched message) only where it has not.
\<close>

theorem payload_overrides_ids:
  assumes "potentialJson body = Some t" and "JSON_parse t = Inr parsed"
  shows "\<exists>payload resp.
           parsed = JObj payload \<and>
           extractApiResponse body rid mid = Inr (Some resp) \<and>
           map_of resp ''requestId'' =
             Some (case map_of payload ''requestId'' of Some v \<Rightarrow> v | None \<Rightarrow> JStr rid) \<and>
           map_of resp ''messageId'' =
             Some (case map_of payload ''messageId'' of Some v \<Rightarrow> v | None \<Rightarrow> JStr mid)"
proof -
  from parsed_payload_is_object [OF assms] obtain kvs where
    p: "parsed = JObj kvs" and d: "distinct (map fst kvs)" by blast
  let ?resp = "assign [(''requestId'', JStr rid), (''messageId'', JStr mid)] kvs"
  have e: "extractApiResponse body rid mid = Inr (Some ?resp)"
    using assms p by (simp add: extractApiResponse_def own_properties_def)
  have "map_of ?resp ''requestId'' =
          Some (case map_of kvs ''requestId'' of Some v \<Rightarrow> v | None \<Rightarrow> JStr rid)"
    by (simp add: map_of_assign map_of_rev_distinct [OF d] split: option.splits)
  moreover have "map_of ?resp ''messageId'' =
          Some (case map_of kvs ''messageId'' of Some v \<Rightarrow> v | None \<Rightarrow> JStr mid)"
    by (simp add: map_of_assign map_of_rev_distinct [OF d] split: option.splits)
  ultimately show ?thesis using p e by blast
qed

theorem payload_overrides_ids_witness:
  "potentialJson payload_rid = Some payload_rid \<and>
   JSON_parse payload_rid = Inr (JObj [(''requestId'', JStr ''zz'')]) \<and>
   (\<exists>resp. extractApiResponse payload_rid ''abc'' ''m1'' = Inr (Some resp) \<and>
      map_of resp ''requestId'' = Some (JStr ''zz'') \<and>
      map_of resp ''messageId'' = Some (JStr ''m1''))"
proof -
  have p: "potentialJson payload_rid = Some payload_rid" by code_simp
  have j: "JSON_parse payload_rid = Inr (JObj [(''requestId'', JStr ''zz'')])" by code_simp
  from payload_overrides_ids [OF p j, of "''abc''" "''m1''"] p j
  show ?thesis by auto
qed

section \<open>Properties of ResponseWatcher\<close>

lemma fetched_append: "fetched (xs @ ys) = fetched xs @ fetched ys"
  by (induction xs rule: fetched.induct) auto

lemma markAsRead_world: "markAsRead env w mid = await_call env w (CallModify mid)"
  by (simp add: markAsRead_def split: sum.splits)

lemma fetch_world: "snd (fetchAndParseMessage env w mid) = await_call env w (CallGet mid)"
  by (simp add: fetchAndParseMessage_def Let_def split: sum.splits option.splits)

lemma extractApiResponse_not_Inl: "extractApiResponse body rid mid \<noteq> Inl err"
  by (auto simp: extractApiResponse_def split: option.splits sum.splits)

text \<open>One turn of the loop of poll on a message that is new to the watcher.\<close>

lemma poll_loop_new:
  assumes "mid \<noteq> []" and "mid \<notin> processedMessageIds st"
    and "poll_loop env w st (Some mid # rest) = (r, w', st')"
  defines "st1 \<equiv> st\<lparr>processedMessageIds := insert mid (processedMessageIds st)\<rparr>"
    and "w1 \<equiv> await_call env w (CallGet mid)"
  shows "poll_loop env w1 st1 rest = (r, w', st') \<or>
         (\<exists>e resp. fst (fetchAndParseMessage env w mid) = Some e \<and>
            includes_str (email_subject e) (requestId st) \<and>
            extractApiResponse (email_body e) (requestId st) mid = Inr (Some resp) \<and>
            r = Inr (Some resp) \<and> w' = markAsRead env w1 mid \<and> st' = st1)"
proof -
  obtain email wf where f: "fetchAndParseMessage env w mid = (email, wf)"
    by (cases "fetchAndParseMessage env w mid")
  with fetch_world [of env w mid] have wf: "wf = w1" by (simp add: w1_def)
  show ?thesis
  proof (cases email)
    case None
    with assms(1-3) f wf show ?thesis by (simp add: st1_def)
  next
    case (Some e)
    show ?thesis
    proof (cases "includes_str (email_subject e) (requestId st)")
      case False
      with assms(1-3) f wf Some show ?thesis by (simp add: st1_def)
    next
      case True
      show ?thesis
      proof (cases "extractApiResponse (email_body e) (requestId st) mid")
        case (Inl err)
        with extractApiResponse_not_Inl show ?thesis by blast
      next
        case (Inr res)
        show ?thesis
        proof (cases res)
          case None
          with Inr assms(1-3) f wf Some True show ?thesis by (simp add: st1_def)
        next
          case (Some resp)
          with Inr assms(1-3) f wf \<open>email = Some e\<close> True
          have "r = Inr (Some resp) \<and> w' = markAsRead env w1 mid \<and> st' = st1"
            by (simp add: st1_def)
          with Inr Some f \<open>email = Some e\<close> True show ?thesis by simp
        qed
      qed
    qed
  qed
qed

lemma poll_loop_skip:
  "msg = None \<or> msg = Some [] \<or> (\<exists>mid. msg = Some mid \<and> mid \<in> processedMessageIds st) \<Longrightarrow>
   poll_loop env w st (msg # rest) = poll_loop env w st rest"
  by auto

lemma poll_loop_cases:
  assumes "poll_loop env w st (msg # rest) = (r, w', st')"
  obtains (skip) "poll_loop env w st rest = (r, w', st')"
  | (new) mid where "msg = Some mid" "mid \<noteq> []" "mid \<notin> processedMessageIds st"
      "poll_loop env (await_call env w (CallGet mid))
         (st\<lparr>processedMessageIds := insert mid (processedMessageIds st)\<rparr>) rest = (r, w', st')"
  | (match) mid e resp where "msg = Some mid" "mid \<noteq> []" "mid \<notin> processedMessageIds st"
      "fst (fetchAndParseMessage env w mid) = Some e"
      "includes_str (email_subject e) (requestId st)"
      "extractApiResponse (email_body e) (requestId st) mid = Inr (Some resp)"
      "r = Inr (Some resp)" "w' = markAsRead env (await_call env w (CallGet mid)) mid"
      "st' = st\<lparr>processedMessageIds := insert mid (processedMessageIds st)\<rparr>"
proof (cases "msg = None \<or> msg = Some [] \<or> (\<exists>mid. msg = Some mid \<and> mid \<in> processedMessageIds st)")
  case True
  from poll_loop_skip [OF this] assms show ?thesis using skip by simp
next
  case False
  then obtain mid where m: "msg = Some mid" "mid \<noteq> []" "mid \<notin> processedMessageIds st"
    by (cases msg) auto
  from poll_loop_new [OF m(2,3) assms [unfolded m(1)]] m new match show ?thesis
    by blast
qed

lemma poll_loop_effect:
  "poll_loop env w st msgs = (r, w', st') \<Longrightarrow>
     st' = st\<lparr>processedMessageIds := processedMessageIds st'\<rparr> \<and>
     (\<exists>es. trace w' = trace w @ es \<and> distinct (fetched es) \<and>
        set (fetched es) \<inter> processedMessageIds st = {} \<and>
        processedMessageIds st' = processedMessageIds st \<union> set (fetched es))"
proof (induction msgs arbitrary: w st)
  case Nil
  then show ?case by auto
next
  case (Cons msg rest)
  from Cons.prems show ?case
  proof (cases rule: poll_loop_cases)
    case skip
    from Cons.IH [OF this] show ?thesis .
  next
    case (new mid)
    from Cons.IH [OF new(4)] obtain es where
      st: "st' = st\<lparr>processedMessageIds := processedMessageIds st'\<rparr>" and
      es: "trace w' = trace w @ CallGet mid # es" "distinct (fetched es)"
        "set (fetched es) \<inter> insert mid (processedMessageIds st) = {}"
        "processedMessageIds st' = insert mid (processedMessageIds st) \<union> set (fetched es)"
      by (auto simp: await_call_def)
    from es have "distinct (fetched (CallGet mid # es))"
      "set (fetched (CallGet mid # es)) \<inter> processedMessageIds st = {}"
      "processedMessageIds st' = processedMessageIds st \<union> set (fetched (CallGet mid # es))"
      using new(3) by auto
    with st es(1) show ?thesis by blast
  next
    case (match mid e resp)
    have "trace w' = trace w @ [CallGet mid, CallModify mid]"
      by (simp add: match(8) markAsRead_world await_call_def)
    moreover have "distinct (fetched [CallGet mid, CallModify mid])" by simp
    moreover have "set (fetched [CallGet mid, CallModify mid]) \<inter> processedMessageIds st = {}"
      using match(3) by simp
    moreover have "processedMessageIds st' =
        processedMessageIds st \<union> set (fetched [CallGet mid, CallModify mid])"
      by (simp add: match(9))
    moreover have "st' = st\<lparr>processedMessageIds := processedMessageIds st'\<rparr>"
      by (simp add: match(9))
    ultimately show ?thesis by blast
  qed
qed


lemma poll_effect:
  assumes "poll env w st = (r, w', st')"
  shows "st' = st\<lparr>processedMessageIds := processedMessageIds st'\<rparr> \<and>
     (\<exists>es. trace w' = trace w @ es \<and> distinct (fetched es) \<and>
        set (fetched es) \<inter> processedMessageIds st = {} \<and>
        processedMessageIds st' = processedMessageIds st \<union> set (fetched es))"
proof -
  define q where "q = ''from:'' @ responseSenderEmail st @ '' is:unread after:''
                      @ local_date env (startTime st - 60000)"
  define w1 where "w1 = await_call env w (CallList q)"
  have t1: "trace w1 = trace w @ [CallList q]" by (simp add: w1_def await_call_def)
  have "(w' = w1 \<and> st' = st) \<or> (\<exists>msgs. poll_loop env w1 st msgs = (r, w', st'))"
    using assms unfolding poll_def Let_def q_def [symmetric] w1_def [symmetric]
    by (auto split: sum.splits option.splits if_splits)
  then show ?thesis
  proof (elim disjE conjE exE)
    assume "w' = w1" "st' = st"
    with t1 show ?thesis by simp
  next
    fix msgs
    assume "poll_loop env w1 st msgs = (r, w', st')"
    from poll_loop_effect [OF this] t1 obtain es where
      "st' = st\<lparr>processedMessageIds := processedMessageIds st'\<rparr>"
      "trace w' = trace w @ CallList q # es" "distinct (fetched (CallList q # es))"
      "set (fetched (CallList q # es)) \<inter> processedMessageIds st = {}"
      "processedMessageIds st' = processedMessageIds st \<union> set (fetched (CallList q # es))"
      by auto
    then show ?thesis by blast
  qed
qed

lemma check_effect:
  assumes "check env w st = (r, w', st')"
  shows "st' = st\<lparr>processedMessageIds := processedMessageIds st'\<rparr> \<and>
     (\<exists>es. trace w' = trace w @ es \<and> distinct (fetched es) \<and>
        set (fetched es) \<inter> processedMessageIds st = {} \<and>
        processedMessageIds st' = processedMessageIds st \<union> set (fetched es))"
proof (cases "clock w - startTime st > timeoutMs st")
  case True
  with assms show ?thesis by (simp add: check_def)
next
  case False
  obtain pr w1 st1 where p: "poll env w st = (pr, w1, st1)"
    by (cases "poll env w st") auto
  from poll_effect [OF p] obtain es where
    st1: "st1 = st\<lparr>processedMessageIds := processedMessageIds st1\<rparr>" and
    es: "trace w1 = trace w @ es" "distinct (fetched es)"
      "set (fetched es) \<inter> processedMessageIds st = {}"
      "processedMessageIds st1 = processedMessageIds st \<union> set (fetched es)"
    by blast
  from assms False p have st': "st' = st1" and
    w': "w' = w1 \<or> w' = await_call env w1 (Timer (pollIntervalMs st1))"
    by (auto simp: check_def split: sum.splits option.splits)
  from w' show ?thesis
  proof
    assume "w' = w1"
    with st' st1 es show ?thesis by blast
  next
    assume "w' = await_call env w1 (Timer (pollIntervalMs st1))"
    with es have "trace w' = trace w @ (es @ [Timer (pollIntervalMs st1)])"
      "distinct (fetched (es @ [Timer (pollIntervalMs st1)]))"
      "set (fetched (es @ [Timer (pollIntervalMs st1)])) \<inter> processedMessageIds st = {}"
      "processedMessageIds st1 =
         processedMessageIds st \<union> set (fetched (es @ [Timer (pollIntervalMs st1)]))"
      by (simp_all add: await_call_def fetched_append)
    with st' st1 show ?thesis by blast
  qed
qed

lemma waitForResponse_effect:
  "waitForResponse n env w st = (r, w', st') \<Longrightarrow>
     st' = st\<lparr>processedMessageIds := processedMessageIds st'\<rparr> \<and>
     (\<exists>es. trace w' = trace w @ es \<and> distinct (fetched es) \<and>
        set (fetched es) \<inter> processedMessageIds st = {} \<and>
        processedMessageIds st' = processedMessageIds st \<union> set (fetched es))"
proof (induction n arbitrary: w st)
  case 0
  then show ?case by auto
next
  case (Suc n)
  obtain c w1 st1 where c: "check env w st = (c, w1, st1)"
    by (cases "check env w st") auto
  from check_effect [OF c] obtain es1 where
    st1: "st1 = st\<lparr>processedMessageIds := processedMessageIds st1\<rparr>" and
    es1: "trace w1 = trace w @ es1" "distinct (fetched es1)"
      "set (fetched es1) \<inter> processedMessageIds st = {}"
      "processedMessageIds st1 = processedMessageIds st \<union> set (fetched es1)"
    by blast
  show ?case
  proof (cases c)
    case (Some result)
    with Suc.prems c have "w' = w1" "st' = st1" by simp_all
    with st1 es1 show ?thesis by blast
  next
    case None
    with Suc.prems c have "waitForResponse n env w1 st1 = (r, w', st')" by simp
    from Suc.IH [OF this] obtain es2 where
      st': "st' = st1\<lparr>processedMessageIds := processedMessageIds st'\<rparr>" and
      es2: "trace w' = trace w1 @ es2" "distinct (fetched es2)"
        "set (fetched es2) \<inter> processedMessageIds st1 = {}"
        "processedMessageIds st' = processedMessageIds st1 \<union> set (fetched es2)"
      by blast
    from st1 st' have "st' = st\<lparr>processedMessageIds := processedMessageIds st'\<rparr>"
      by (metis watcher.update_convs(6) watcher.surjective watcher.simps(13))
    moreover from es1 es2 have "trace w' = trace w @ (es1 @ es2)" by simp
    moreover from es1 es2 have "distinct (fetched (es1 @ es2))"
      by (auto simp: fetched_append)
    moreover from es1 es2 have "set (fetched (es1 @ es2)) \<inter> processedMessageIds st = {}"
      by (auto simp: fetched_append)
    moreover from es1 es2 have
      "processedMessageIds st' = processedMessageIds st \<union> set (fetched (es1 @ es2))"
      by (auto simp: fetched_append)
    ultimately show ?thesis by blast
  qed
qed






lemma watcher_fields:
  assumes "st' = st\<lparr>processedMessageIds := p\<rparr>"
  shows "startTime st' = startTime st" "timeoutMs st' = timeoutMs st"
    "requestId st' = requestId st" "pollIntervalMs st' = pollIntervalMs st"
  using assms by simp_all


text \<open>What a settled promise holds: the timeout error, raised after the deadline, or
  the response of a poll for the same request id.\<close>

lemma waitForResponse_outcome:
  "waitForResponse n env w st = (Some result, w', st') \<Longrightarrow>
     (result = Rejected (timeout_error st) \<and> timeoutMs st < clock w' - startTime st) \<or>
     (\<exists>resp w1 st1. result = Resolved resp \<and> requestId st1 = requestId st \<and>
        fst (poll env w1 st1) = Inr (Some resp))"
proof (induction n arbitrary: w st)
  case 0
  then show ?case by simp
next
  case (Suc n)
  obtain c w1 st1 where c: "check env w st = (c, w1, st1)"
    by (cases "check env w st") auto
  show ?case
  proof (cases c)
    case None
    with Suc.prems c have "waitForResponse n env w1 st1 = (Some result, w', st')" by simp
    from Suc.IH [OF this] check_effect [OF c] watcher_fields [where st' = st1 and st = st and p = "processedMessageIds st1"]
    show ?thesis by (simp add: timeout_error_def)
  next
    case (Some res)
    with Suc.prems c have r: "res = result" "w1 = w'" "st1 = st'" by simp_all
    show ?thesis
    proof (cases "timeoutMs st < clock w - startTime st")
      case True
      with c Some r show ?thesis by (auto simp: check_def timeout_error_def)
    next
      case False
      obtain pr w2 st2 where p: "poll env w st = (pr, w2, st2)"
        by (cases "poll env w st") auto
      with c Some r False have "\<exists>resp. result = Resolved resp \<and> pr = Inr (Some resp)"
        by (auto simp: check_def split: sum.splits option.splits)
      then obtain resp where "result = Resolved resp" "pr = Inr (Some resp)" by blast
      with p have "result = Resolved resp \<and> requestId st = requestId st \<and>
          fst (poll env w st) = Inr (Some resp)" by simp
      then show ?thesis by blast
    qed
  qed
qed

lemma poll_loop_match:
  "poll_loop env w st msgs = (Inr (Some resp), w', st') \<Longrightarrow>
     \<exists>mid e wf. mid \<in> processedMessageIds st' \<and>
       fst (fetchAndParseMessage env wf mid) = Some e \<and>
       includes_str (email_subject e) (requestId st) \<and>
       extractApiResponse (email_body e) (requestId st) mid = Inr (Some resp)"
proof (induction msgs arbitrary: w st)
  case Nil
  then show ?case by simp
next
  case (Cons msg rest)
  from Cons.prems show ?case
  proof (cases rule: poll_loop_cases)
    case skip
    from Cons.IH [OF this] show ?thesis .
  next
    case (new mid)
    from Cons.IH [OF new(4)] show ?thesis by simp
  next
    case (match mid e r)
    then have "mid \<in> processedMessageIds st' \<and>
       fst (fetchAndParseMessage env w mid) = Some e \<and>
       includes_str (email_subject e) (requestId st) \<and>
       extractApiResponse (email_body e) (requestId st) mid = Inr (Some resp)"
      by simp
    then show ?thesis by blast
  qed
qed

text \<open>
  Claim C1, as amended. A poll that awaits the request id \<open>c2\<close> returns a response
  only if it fetched a candidate whose subject contains \<open>c2\<close> as a substring, and the
  response is what extractApiResponse makes of that candidate's body: the thread id plays
  no part. So a reply tagged with another id resolves the wait only when its subject
  contains \<open>c2\<close> as well.
\<close>

theorem poll_matches_by_subject:
  assumes "fst (poll env w st) = Inr (Some resp)"
  shows "\<exists>mid e wf. mid \<in> processedMessageIds (snd (snd (poll env w st))) \<and>
           fst (fetchAndParseMessage env wf mid) = Some e \<and>
           includes_str (email_subject e) (requestId st) \<and>
           extractApiResponse (email_body e) (requestId st) mid = Inr (Some resp)"
proof -
  obtain w' st' where p: "poll env w st = (Inr (Some resp), w', st')"
    using assms by (cases "poll env w st") auto
  define q where "q = ''from:'' @ responseSenderEmail st @ '' is:unread after:''
                      @ local_date env (startTime st - 60000)"
  define w1 where "w1 = await_call env w (CallList q)"
  have "\<exists>msgs. poll_loop env w1 st msgs = (Inr (Some resp), w', st')"
    using p unfolding poll_def Let_def q_def [symmetric] w1_def [symmetric]
    by (auto split: sum.splits option.splits if_splits)
  then obtain msgs where "poll_loop env w1 st msgs = (Inr (Some resp), w', st')" by blast
  from poll_loop_match [OF this] p show ?thesis by simp
qed

theorem poll_matches_by_subject_witness:
  "fst (poll (sample_env (Inr (Some [Some ''m0'', Some ''m1''])) ''abc''
               ''Re: #calendarapi GET list [abc]'' payload_a1) world0
          (ResponseWatcher world0 ''backend@example.org'' ''abc'' 3000 5000))
     = Inr (Some [(''requestId'', JStr ''abc''), (''messageId'', JStr ''m0''), (''a'', JNum ''1'')]) \<and>
   (\<exists>mid e wf.
      fst (fetchAndParseMessage (sample_env (Inr (Some [Some ''m0'', Some ''m1''])) ''abc''
               ''Re: #calendarapi GET list [abc]'' payload_a1) wf mid) = Some e \<and>
      includes_str (email_subject e) ''abc'' \<and>
      extractApiResponse (email_body e) ''abc'' mid
        = Inr (Some [(''requestId'', JStr ''abc''), (''messageId'', JStr ''m0''), (''a'', JNum ''1'')]))"
proof -
  let ?E = "sample_env (Inr (Some [Some ''m0'', Some ''m1''])) ''abc''
               ''Re: #calendarapi GET list [abc]'' payload_a1"
  let ?S = "ResponseWatcher world0 ''backend@example.org'' ''abc'' 3000 5000"
  have h: "fst (poll ?E world0 ?S)
     = Inr (Some [(''requestId'', JStr ''abc''), (''messageId'', JStr ''m0''), (''a'', JNum ''1'')])"
    by code_simp
  have r: "requestId ?S = ''abc''" by (simp add: ResponseWatcher_def)
  from poll_matches_by_subject [OF h] h r show ?thesis by auto
qed

text \<open>
  Claim C1 as stated fails: the ids \<open>abc-123\<close> and \<open>abc\<close> are distinct, and the
  reply tagged \<open>[abc-123]\<close> resolves the poll that awaits \<open>abc\<close>.
\<close>

theorem correlation_isolation_counterexample:
  "''abc-123'' \<noteq> ''abc'' \<and>
   fst (poll (sample_env (Inr (Some [Some ''m1''])) ''abc-123''
               ''#calendarapi GET list [abc-123]'' payload_a1) world0
          (ResponseWatcher world0 ''backend@example.org'' ''abc'' 3000 5000))
     = Inr (Some [(''requestId'', JStr ''abc''), (''messageId'', JStr ''m1''), (''a'', JNum ''1'')])"
  by code_simp




text \<open>
  Claim C3. A new watcher has processed no message id. Over any number of runs of check
  in one waitForResponse, the messages fetched are pairwise distinct, none of them was
  in processedMessageIds at the start, and processedMessageIds at the end is what it was
  at the start together with the ids fetched: the set only grows, and an id in it is
  never fetched again.
\<close>

theorem processed_ids_fetched_once:
  assumes "waitForResponse n env w st = (result, w', st')"
  shows "processedMessageIds (ResponseWatcher w0 sender rid interval timeout) = {} \<and>
         (\<exists>es. trace w' = trace w @ es \<and> distinct (fetched es) \<and>
            set (fetched es) \<inter> processedMessageIds st = {} \<and>
            processedMessageIds st' = processedMessageIds st \<union> set (fetched es))"
  using waitForResponse_effect [OF assms] by (simp add: ResponseWatcher_def)

theorem processed_ids_fetched_once_witness:
  "fetched (trace (fst (snd (waitForResponse 2
      (sample_env (Inr (Some [Some ''m1'', Some ''m1'', Some ''m2''])) ''abc'' ''other'' payload_a1)
      world0 (ResponseWatcher world0 ''backend@example.org'' ''abc'' 3000 5000)))))
     = [''m1'', ''m2''] \<and>
   (\<exists>es. trace (fst (snd (waitForResponse 2
      (sample_env (Inr (Some [Some ''m1'', Some ''m1'', Some ''m2''])) ''abc'' ''other'' payload_a1)
      world0 (ResponseWatcher world0 ''backend@example.org'' ''abc'' 3000 5000)))) = trace world0 @ es \<and>
      distinct (fetched es) \<and>
      processedMessageIds (snd (snd (waitForResponse 2
      (sample_env (Inr (Some [Some ''m1'', Some ''m1'', Some ''m2''])) ''abc'' ''other'' payload_a1)
      world0 (ResponseWatcher world0 ''backend@example.org'' ''abc'' 3000 5000)))) = set (fetched es))"
proof -
  let ?E = "sample_env (Inr (Some [Some ''m1'', Some ''m1'', Some ''m2''])) ''abc'' ''other'' payload_a1"
  let ?S = "ResponseWatcher world0 ''backend@example.org'' ''abc'' 3000 5000"
  let ?R = "waitForResponse 2 ?E world0 ?S"
  have f: "fetched (trace (fst (snd ?R))) = [''m1'', ''m2'']" by code_simp
  have e: "processedMessageIds ?S = {}" by (simp add: ResponseWatcher_def)
  have "?R = (fst ?R, fst (snd ?R), snd (snd ?R))" by simp
  from processed_ids_fetched_once [OF this] f e show ?thesis by auto
qed

text \<open>
  Claim C6. Whatever waitForResponse rejects with is the TIMEOUT error for the awaited
  request id. Before the deadline, a poll that throws (the list call failed) leaves the
  promise pending: the timer of pollIntervalMs is set and the next run of check goes on
  from there. A get call that fails is caught in fetchAndParseMessage, which returns
  null, so the loop of poll goes on to the next message.
\<close>

theorem poll_errors_are_swallowed:
  "(\<forall>n e w' st'. waitForResponse n env w st = (Some (Rejected e), w', st') \<longrightarrow>
      e = timeout_error st) \<and>
   (\<forall>err w1 st1. \<not> timeoutMs st < clock w - startTime st \<longrightarrow>
      poll env w st = (Inl err, w1, st1) \<longrightarrow>
      check env w st = (None, await_call env w1 (Timer (pollIntervalMs st1)), st1) \<and>
      (\<forall>n. waitForResponse (Suc n) env w st =
            waitForResponse n env (await_call env w1 (Timer (pollIntervalMs st1))) st1)) \<and>
   (\<forall>mid err. get_result env w mid = Inl err \<longrightarrow>
      fetchAndParseMessage env w mid = (None, await_call env w (CallGet mid)))"
proof (intro conjI allI impI)
  fix n e w' st'
  assume "waitForResponse n env w st = (Some (Rejected e), w', st')"
  from waitForResponse_outcome [OF this] show "e = timeout_error st" by auto
next
  fix err w1 st1
  assume a: "\<not> timeoutMs st < clock w - startTime st" "poll env w st = (Inl err, w1, st1)"
  then show c: "check env w st = (None, await_call env w1 (Timer (pollIntervalMs st1)), st1)"
    by (simp add: check_def)
  fix n
  from c show "waitForResponse (Suc n) env w st =
      waitForResponse n env (await_call env w1 (Timer (pollIntervalMs st1))) st1"
    by simp
next
  fix mid err
  assume "get_result env w mid = Inl err"
  then show "fetchAndParseMessage env w mid = (None, await_call env w (CallGet mid))"
    by (simp add: fetchAndParseMessage_def)
qed

theorem poll_errors_are_swallowed_witness:
  "fst (poll (sample_env (Inl (Error ''network'')) ''abc'' [] []) world0
         (ResponseWatcher world0 ''backend@example.org'' ''abc'' 3000 5000))
     = Inl (Error ''network'') \<and>
   fst (check (sample_env (Inl (Error ''network'')) ''abc'' [] []) world0
         (ResponseWatcher world0 ''backend@example.org'' ''abc'' 3000 5000)) = None \<and>
   fst (waitForResponse 3 (sample_env (Inl (Error ''network'')) ''abc'' [] []) world0
         (ResponseWatcher world0 ''backend@example.org'' ''abc'' 3000 5000))
     = Some (Rejected (CalendarApiError ''Request timed out after 5000ms'' ''TIMEOUT''
                (Some ''abc''))) \<and>
   fetchAndParseMessage
     ((sample_env (Inr None) ''abc'' [] [])\<lparr>get_result := \<lambda>w i. Inl (Error ''fetch'')\<rparr>)
     world0 ''m1''
     = (None, await_call
         ((sample_env (Inr None) ''abc'' [] [])\<lparr>get_result := \<lambda>w i. Inl (Error ''fetch'')\<rparr>)
         world0 (CallGet ''m1''))"
proof -
  let ?E = "sample_env (Inl (Error ''network'')) ''abc'' [] []"
  let ?F = "(sample_env (Inr None) ''abc'' [] [])\<lparr>get_result := \<lambda>w i. Inl (Error ''fetch'')\<rparr>"
  let ?S = "ResponseWatcher world0 ''backend@example.org'' ''abc'' 3000 5000"
  have p: "fst (poll ?E world0 ?S) = Inl (Error ''network'')" by code_simp
  then have p': "poll ?E world0 ?S =
      (Inl (Error ''network''), fst (snd (poll ?E world0 ?S)), snd (snd (poll ?E world0 ?S)))"
    by (metis prod.collapse)
  have d: "\<not> timeoutMs ?S < clock world0 - startTime ?S"
    by (simp add: ResponseWatcher_def world0_def)
  have r: "fst (waitForResponse 3 ?E world0 ?S)
     = Some (Rejected (CalendarApiError ''Request timed out after 5000ms'' ''TIMEOUT''
                (Some ''abc'')))"
    by code_simp
  have t: "timeout_error ?S = CalendarApiError ''Request timed out after 5000ms'' ''TIMEOUT''
                  (Some ''abc'')"
    by code_simp
  have g: "get_result ?F world0 ''m1'' = Inl (Error ''fetch'')" by simp
  from poll_errors_are_swallowed [of ?E world0 ?S] d p'
  have "fst (check ?E world0 ?S) = None" by (metis fst_conv)
  moreover from poll_errors_are_swallowed [of ?F world0] g
  have "fetchAndParseMessage ?F world0 ''m1'' = (None, await_call ?F world0 (CallGet ''m1''))"
    by blast
  ultimately show ?thesis using p r by simp
qed

section \<open>Properties of CalendarEmailClient\<close>


text \<open>Each public operation is executeApiCall around one sendRequest.\<close>

lemma run_call_unfold:
  "\<exists>context method payload. \<forall>n env w.
     run_call n env w c pc =
       executeApiCall w context (\<lambda>w. sendRequest n env w c method (call_action pc) payload)"
  by (cases pc)
     (auto simp: run_call_def call_action_def listEvents_def createEvent_def updateEvent_def
        deleteEvent_def healthCheck_def)









text \<open>
  Claim C8, as amended. A public operation whose action is supported, called on a client
  that is not connected, makes no transport call and takes no time: sendRequest throws
  the NOT_CONNECTED error, executeApiCall catches it, and the caller gets a response with
  status \<open>error\<close> and the code NOT_CONNECTED in its data.
\<close>

theorem not_connected_is_returned:
  assumes "call_action pc \<in> set (supportedActions c)" and "\<not> connected c \<or> gmail c = None"
  shows "run_call n env w c pc =
           Some (Inr [(''status'', JStr ''error''),
                      (''requestId'', JStr []),
                      (''error'', JStr ''Client is not connected. Call connect() first.''),
                      (''data'', JObj [(''code'', JStr ''NOT_CONNECTED'')]),
                      (''durationMs'', JNum ''0'')], w) \<and>
         (\<forall>method payload.
            sendRequest n env w c method (call_action pc) payload =
              Some (Inl (CalendarApiError ''Client is not connected. Call connect() first.''
                           NOT_CONNECTED None), w))"
proof -
  have z: "show_int 0 = ''0''" by (simp add: show_int_def show_digits.simps)
  have s: "\<And>method payload. sendRequest n env w c method (call_action pc) payload =
      Some (Inl (CalendarApiError ''Client is not connected. Call connect() first.''
                   NOT_CONNECTED None), w)"
    using assms by (auto simp: sendRequest_def ensureConnected_def)
  from run_call_unfold [of c pc] obtain ctx meth load where
    u: "\<And>n env w. run_call n env w c pc =
       executeApiCall w ctx (\<lambda>w. sendRequest n env w c meth (call_action pc) load)"
    by blast
  have "run_call n env w c pc =
           Some (Inr [(''status'', JStr ''error''),
                      (''requestId'', JStr []),
                      (''error'', JStr ''Client is not connected. Call connect() first.''),
                      (''data'', JObj [(''code'', JStr ''NOT_CONNECTED'')]),
                      (''durationMs'', JNum ''0'')], w)"
    unfolding u
    by (simp add: executeApiCall_def s paramsErrorMessage_def set_durationMs_def z
          NOT_CONNECTED_def)
  with s show ?thesis by blast
qed

theorem not_connected_is_returned_witness:
  "call_action (ListEvents ''a'' ''b'') \<in> set (supportedActions (CalendarEmailClient sample_config)) \<and>
   \<not> connected (CalendarEmailClient sample_config) \<and>
   run_call 0 (sample_env (Inr None) ''abc'' [] []) world0 (CalendarEmailClient sample_config)
       (ListEvents ''a'' ''b'') =
     Some (Inr [(''status'', JStr ''error''),
                (''requestId'', JStr []),
                (''error'', JStr ''Client is not connected. Call connect() first.''),
                (''data'', JObj [(''code'', JStr ''NOT_CONNECTED'')]),
                (''durationMs'', JNum ''0'')], world0)"
proof -
  have a: "call_action (ListEvents ''a'' ''b'') \<in> set (supportedActions (CalendarEmailClient sample_config))"
    by (simp add: call_action_def CalendarEmailClient_def)
  have d: "\<not> connected (CalendarEmailClient sample_config) \<or> gmail (CalendarEmailClient sample_config) = None"
    by (simp add: CalendarEmailClient_def)
  have d': "\<not> connected (CalendarEmailClient sample_config)"
    by (simp add: CalendarEmailClient_def)
  from not_connected_is_returned [OF a d, of 0 "sample_env (Inr None) ''abc'' [] []" world0] a d'
  show ?thesis by blast
qed

text \<open>
  Claim C8 as stated fails: listEvents on a new client, never connected, does not raise;
  it returns the error response.
\<close>

theorem not_connected_counterexample:
  "listEvents 0 (sample_env (Inr None) ''abc'' [] []) world0 (CalendarEmailClient sample_config)
       ''2026-02-11'' ''2026-02-12'' =
     Some (Inr [(''status'', JStr ''error''),
                (''requestId'', JStr []),
                (''error'', JStr ''Client is not connected. Call connect() first.''),
                (''data'', JObj [(''code'', JStr ''NOT_CONNECTED'')]),
                (''durationMs'', JNum ''0'')], world0)"
  by code_simp

text \<open>
  Claim C9. A public operation whose action is not in supportedActions returns at once
  (whatever the bound on the wait, whatever the state of the connection) the response
  with status \<open>skipped\<close>, and the world is as before: no transport call was made.
\<close>

theorem unsupported_action_is_skipped:
  assumes "call_action pc \<notin> set (supportedActions c)"
  shows "run_call n env w c pc =
           Some (Inr [(''status'', JStr ''skipped''),
                      (''requestId'', JStr ''no-op''),
                      (''data'', JObj [(''message'', JStr
         ''Not implemented in backend yet. This action is currently disabled in the client.'')]),
                      (''durationMs'', JNum ''0'')], w)"
proof -
  have z: "show_int 0 = ''0''" by (simp add: show_int_def show_digits.simps)
  from run_call_unfold [of c pc] obtain ctx meth load where
    u: "\<And>n env w. run_call n env w c pc =
       executeApiCall w ctx (\<lambda>w. sendRequest n env w c meth (call_action pc) load)"
    by blast
  show ?thesis
    unfolding u using assms
    by (simp add: executeApiCall_def sendRequest_def skipped_response_def set_durationMs_def z)
qed

theorem unsupported_action_is_skipped_witness:
  "call_action HealthCheck \<notin> set (supportedActions (CalendarEmailClient sample_config)) \<and>
   run_call 0 (sample_env (Inr None) ''abc'' [] []) world0 (CalendarEmailClient sample_config)
       HealthCheck =
     Some (Inr [(''status'', JStr ''skipped''),
                (''requestId'', JStr ''no-op''),
                (''data'', JObj [(''message'', JStr
         ''Not implemented in backend yet. This action is currently disabled in the client.'')]),
                (''durationMs'', JNum ''0'')], world0)"
proof -
  have a: "call_action HealthCheck \<notin> set (supportedActions (CalendarEmailClient sample_config))"
    by (simp add: call_action_def CalendarEmailClient_def)
  from unsupported_action_is_skipped [OF a, of 0 "sample_env (Inr None) ''abc'' [] []" world0] a
  show ?thesis by blast
qed

end
